(* ===== verification/Prelude.thy ===== *)
theory Prelude
  imports Complex_Main "HOL-Library.AList" "HOL-Library.Multiset"
begin

text \<open>
  Shared vocabulary of the development: Go maps as association lists with unique keys
  (with the laws a client relies on, stated once as a locale), the response writer of
  \<^verbatim>\<open>net/http\<close>, the tail of a slice, and the small list facts several components use.
\<close>

named_theorems gmap_simps \<open>lookup and well-formedness of Go maps\<close>
named_theorems frame_simps \<open>fields an operation leaves alone\<close>

type_synonym proc_name = string

section \<open>Go maps\<close>

text \<open>
  A Go map is an association list with unique keys. Go iterates over a map in an
  unspecified order: a loop over a map is modelled over the list of entries, and the
  lemmas that a client needs hold for every permutation of the entries.
\<close>

type_synonym ('k, 'v) gmap = "('k \<times> 'v) list"

definition gempty :: "('k, 'v) gmap" where
  "gempty = []"

definition gput :: "'k \<Rightarrow> 'v \<Rightarrow> ('k, 'v) gmap \<Rightarrow> ('k, 'v) gmap" where
  "gput k v m = AList.update k v m"

definition gdel :: "'k \<Rightarrow> ('k, 'v) gmap \<Rightarrow> ('k, 'v) gmap" where
  "gdel k m = AList.delete k m"

definition gget :: "('k, 'v) gmap \<Rightarrow> 'k \<Rightarrow> 'v option" where
  "gget m k = map_of m k"

text \<open>Reading a missing key yields the zero value of the element type.\<close>

definition gget_zero :: "'v \<Rightarrow> ('k, 'v) gmap \<Rightarrow> 'k \<Rightarrow> 'v" where
  "gget_zero z m k = (case gget m k of None \<Rightarrow> z | Some v \<Rightarrow> v)"

definition gwf :: "('k, 'v) gmap \<Rightarrow> bool" where
  "gwf m = distinct (map fst m)"

text \<open>The interface of a map as its clients use it.\<close>

locale go_map =
  fixes empty :: "'m"
    and put :: "'k \<Rightarrow> 'v \<Rightarrow> 'm \<Rightarrow> 'm"
    and del :: "'k \<Rightarrow> 'm \<Rightarrow> 'm"
    and get :: "'m \<Rightarrow> 'k \<Rightarrow> 'v option"
    and wf :: "'m \<Rightarrow> bool"
  assumes wf_empty: "wf empty"
    and wf_put: "wf m \<Longrightarrow> wf (put k v m)"
    and wf_del: "wf m \<Longrightarrow> wf (del k m)"
    and get_empty: "get empty k = None"
    and get_put: "get (put k v m) k' = (if k' = k then Some v else get m k')"
    and get_del: "get (del k m) k' = (if k' = k then None else get m k')"
begin

lemma get_put_same: "get (put k v m) k = Some v"
  by (simp add: get_put)

lemma get_put_other: "k' \<noteq> k \<Longrightarrow> get (put k v m) k' = get m k'"
  by (simp add: get_put)

lemma get_put_put: "get (put k v (put k v' m)) = get (put k v m)"
  by (rule ext) (simp add: get_put)

lemma get_put_commute: "k \<noteq> k' \<Longrightarrow> get (put k v (put k' v' m)) = get (put k' v' (put k v m))"
  by (rule ext) (simp add: get_put)

lemma get_del_put: "get (del k (put k v m)) = get (del k m)"
  by (rule ext) (simp add: get_put get_del)

text \<open>A loop that copies a list of entries into a map: the last entry of a key wins.\<close>

lemma get_fold_put:
  "get (fold (\<lambda>(k, v). put k v) xs m) k = (case map_of (rev xs) k of None \<Rightarrow> get m k | Some v \<Rightarrow> Some v)"
  by (induction xs arbitrary: m) (auto simp: get_put map_add_def split: option.splits)

lemma wf_fold_put: "wf m \<Longrightarrow> wf (fold (\<lambda>(k, v). put k v) xs m)"
  by (induction xs arbitrary: m) (auto simp: wf_put)

end

text \<open>A map whose entries can be ranged over.\<close>

locale go_map_range = go_map empty put del get wf
  for empty :: "'m" and put :: "'k \<Rightarrow> 'v \<Rightarrow> 'm \<Rightarrow> 'm" and del :: "'k \<Rightarrow> 'm \<Rightarrow> 'm"
    and get :: "'m \<Rightarrow> 'k \<Rightarrow> 'v option" and wf :: "'m \<Rightarrow> bool" +
  fixes entries :: "'m \<Rightarrow> ('k \<times> 'v) list"
  assumes entries_get: "wf m \<Longrightarrow> (k, v) \<in> set (entries m) \<longleftrightarrow> get m k = Some v"
    and entries_keys: "wf m \<Longrightarrow> distinct (map fst (entries m))"
begin

lemma map_of_entries: "wf m \<Longrightarrow> map_of (entries m) = get m"
  by (rule ext) (metis entries_get entries_keys map_of_eq_Some_iff not_None_eq)

lemma all_entries:
  "wf m \<Longrightarrow> (\<forall>(k, v) \<in> set (entries m). P k v) \<longleftrightarrow> (\<forall>k v. get m k = Some v \<longrightarrow> P k v)"
  by (auto simp: entries_get)

text \<open>Copying a map entry by entry, in any order, yields the same map.\<close>

lemma copy_any_order:
  assumes "wf m" and "mset xs = mset (entries m)"
  shows "get (fold (\<lambda>(k, v). put k v) xs empty) = get m"
proof (rule ext)
  fix k
  have "distinct (map fst xs)"
    using assms entries_keys by (metis mset_eq_imp_distinct_iff mset_map)
  then have "distinct (map fst (rev xs))"
    by (simp add: rev_map [symmetric])
  then have "map_of (rev xs) k = get m k"
    using assms
    by (metis entries_get map_of_eq_Some_iff mset_rev not_None_eq set_mset_mset)
  then show "get (fold (\<lambda>(k, v). put k v) xs empty) k = get m k"
    by (simp add: get_fold_put get_empty split: option.splits)
qed

end

interpretation gm: go_map_range gempty gput gdel gget gwf "\<lambda>m. m"
proof unfold_locales
  fix m :: "('a, 'b) gmap" and k k' v
  show "gwf (gempty :: ('a, 'b) gmap)" by (simp add: gwf_def gempty_def)
  show "gwf m \<Longrightarrow> gwf (gput k v m)" by (simp add: gwf_def gput_def distinct_update)
  show "gwf m \<Longrightarrow> gwf (gdel k m)" by (simp add: gwf_def gdel_def distinct_delete)
  show "gget (gempty :: ('a, 'b) gmap) k = None" by (simp add: gget_def gempty_def)
  show "gget (gput k v m) k' = (if k' = k then Some v else gget m k')"
    by (simp add: gget_def gput_def update_conv')
  show "gget (gdel k m) k' = (if k' = k then None else gget m k')"
    by (simp add: gget_def gdel_def delete_conv')
  show "gwf m \<Longrightarrow> (k, v) \<in> set m \<longleftrightarrow> gget m k = Some v"
    by (simp add: gget_def gwf_def)
  show "gwf m \<Longrightarrow> distinct (map fst m)" by (simp add: gwf_def)
qed

declare gm.wf_empty [gmap_simps] gm.wf_put [gmap_simps] gm.wf_del [gmap_simps]
  gm.get_empty [gmap_simps] gm.get_put [gmap_simps] gm.get_del [gmap_simps]

lemma gget_zero_put [gmap_simps]:
  "gget_zero z (gput k v m) k' = (if k' = k then v else gget_zero z m k')"
  by (simp add: gget_zero_def gm.get_put)

lemma gget_zero_empty [gmap_simps]: "gget_zero z gempty k = z"
  by (simp add: gget_zero_def gm.get_empty)

lemma gwf_map_of_rev: "gwf xs \<Longrightarrow> map_of (rev xs) = gget xs"
proof (rule ext)
  fix k
  assume "gwf xs"
  then have "distinct (map fst xs)" "distinct (map fst (rev xs))"
    by (simp_all add: gwf_def rev_map [symmetric])
  then have "map_of (rev xs) k = map_of xs k"
    by (metis map_of_eq_Some_iff not_None_eq set_rev)
  then show "map_of (rev xs) k = gget xs k" by (simp add: gget_def)
qed

section \<open>The response writer of net/http\<close>

text \<open>
  The first \<^verbatim>\<open>WriteHeader\<close> of a handler fixes the status; later calls are ignored.
  A \<^verbatim>\<open>Write\<close> before any \<^verbatim>\<open>WriteHeader\<close>, and a handler that never writes a
  header, both answer 200.
\<close>

record 'b response =
  respHeader :: "int option"
  respBody :: "'b list"

definition new_response :: "'b response" where
  "new_response = \<lparr>respHeader = None, respBody = []\<rparr>"

definition WriteHeader :: "int \<Rightarrow> 'b response \<Rightarrow> 'b response" where
  "WriteHeader code w = (case respHeader w of None \<Rightarrow> w\<lparr>respHeader := Some code\<rparr> | Some _ \<Rightarrow> w)"

definition WriteBody :: "'b \<Rightarrow> 'b response \<Rightarrow> 'b response" where
  "WriteBody b w = (let w' = WriteHeader 200 w in w'\<lparr>respBody := respBody w' @ [b]\<rparr>)"

definition respStatus :: "'b response \<Rightarrow> int" where
  "respStatus w = (case respHeader w of None \<Rightarrow> 200 | Some c \<Rightarrow> c)"

lemma status_new [simp]: "respStatus new_response = 200"
  by (simp add: respStatus_def new_response_def)

lemma status_WriteHeader:
  "respStatus (WriteHeader c w) = (case respHeader w of None \<Rightarrow> c | Some c' \<Rightarrow> c')"
  by (simp add: respStatus_def WriteHeader_def split: option.splits)

lemma status_WriteBody [simp]: "respStatus (WriteBody b w) = respStatus w"
  by (simp add: respStatus_def WriteBody_def WriteHeader_def Let_def split: option.splits)

lemma respBody_WriteHeader [simp]: "respBody (WriteHeader c w) = respBody w"
  by (simp add: WriteHeader_def split: option.splits)

lemma respBody_WriteBody [simp]: "respBody (WriteBody b w) = respBody w @ [b]"
  by (simp add: WriteBody_def Let_def)

lemma respHeader_new [simp]: "respHeader new_response = None" "respBody new_response = []"
  by (simp_all add: new_response_def)

lemma respHeader_WriteHeader [simp]:
  "respHeader (WriteHeader c w) = Some (case respHeader w of None \<Rightarrow> c | Some c' \<Rightarrow> c')"
  by (simp add: WriteHeader_def split: option.splits)

section \<open>Slices\<close>

text \<open>\<open>s[len(s)-n:]\<close> for \<open>n \<le> len(s)\<close>, as the tail of a slice.\<close>

definition last_n :: "nat \<Rightarrow> 'a list \<Rightarrow> 'a list" where
  "last_n n xs = drop (length xs - n) xs"

lemma length_last_n [simp]: "length (last_n n xs) = min n (length xs)"
  by (simp add: last_n_def)

lemma last_n_short [simp]: "length xs \<le> n \<Longrightarrow> last_n n xs = xs"
  by (simp add: last_n_def)

text \<open>Keeping the last \<open>n\<close> after each append keeps the last \<open>n\<close> of the whole history.\<close>

lemma last_n_append_last_n: "last_n n (last_n n xs @ [x]) = last_n n (xs @ [x])"
proof (cases "n \<le> length xs")
  case True
  then show ?thesis by (cases n) (simp_all add: last_n_def Suc_diff_Suc)
next
  case False
  then show ?thesis by (simp add: last_n_def)
qed

lemma set_last_n: "set (last_n n xs) \<subseteq> set xs"
  by (simp add: last_n_def set_drop_subset)

fun count_if :: "('a \<Rightarrow> bool) \<Rightarrow> 'a list \<Rightarrow> nat" where
  "count_if P [] = 0"
| "count_if P (x # xs) = (if P x then Suc (count_if P xs) else count_if P xs)"

lemma count_if_filter: "count_if P xs = length (filter P xs)"
  by (induction xs) auto

lemma count_if_zero: "count_if P xs = 0 \<longleftrightarrow> (\<forall>x \<in> set xs. \<not> P x)"
  by (induction xs) auto

lemma count_if_le: "count_if P xs \<le> length xs"
  by (simp add: count_if_filter)

text \<open>\<^verbatim>\<open>sliceContains\<close> (process.go and metrics.go define the same loop).\<close>

fun sliceContains :: "'a list \<Rightarrow> 'a \<Rightarrow> bool" where
  "sliceContains [] e = False"
| "sliceContains (v # s) e = (if v = e then True else sliceContains s e)"

lemma sliceContains_iff [simp]: "sliceContains s e \<longleftrightarrow> e \<in> set s"
  by (induction s) auto

section \<open>Environment variables\<close>

text \<open>\<^verbatim>\<open>os.LookupEnv\<close> and \<^verbatim>\<open>os.Getenv\<close> over the environment of the wrapper.\<close>

type_synonym environ = "string \<Rightarrow> string option"

definition Getenv :: "environ \<Rightarrow> string \<Rightarrow> string" where
  "Getenv e k = (case e k of None \<Rightarrow> [] | Some v \<Rightarrow> v)"

lemma Getenv_simps [simp]:
  "e k = None \<Longrightarrow> Getenv e k = []"
  "e k = Some v \<Longrightarrow> Getenv e k = v"
  by (simp_all add: Getenv_def)

section \<open>Executions\<close>

text \<open>
  A step function with labels, blocked at \<open>None\<close>, and its executions over lists of labels. The
  lemmas are the induction principles the concurrent components are verified with.
\<close>

locale execution =
  fixes step :: "'l \<Rightarrow> 's \<Rightarrow> 's option"
    and exec :: "'l list \<Rightarrow> 's \<Rightarrow> 's option"
  assumes exec_Nil: "exec [] s = Some s"
    and exec_Cons: "exec (l # ls) s = (case step l s of None \<Rightarrow> None | Some s' \<Rightarrow> exec ls s')"
begin

lemma exec_append:
  "exec (xs @ ys) s = (case exec xs s of None \<Rightarrow> None | Some s' \<Rightarrow> exec ys s')"
  by (induction xs arbitrary: s) (auto simp: exec_Nil exec_Cons split: option.split)

lemma exec_ConsE:
  assumes "exec (l # ls) s = Some s'"
  obtains t where "step l s = Some t" "exec ls t = Some s'"
  using assms by (auto simp: exec_Cons split: option.splits)

lemma exec_invariant:
  assumes "exec ls s = Some s'" "I s"
    and "\<And>l s s'. l \<in> set ls \<Longrightarrow> I s \<Longrightarrow> step l s = Some s' \<Longrightarrow> I s'"
  shows "I s'"
  using assms
proof (induction ls arbitrary: s)
  case (Cons l ls)
  then obtain t where t: "step l s = Some t" "exec ls t = Some s'" by (auto elim: exec_ConsE)
  show ?case by (rule Cons.IH [OF t(2)]) (use Cons.prems t(1) in auto)
qed (simp add: exec_Nil)

text \<open>Labels of a kind \<open>P\<close> lower a measure that the others do not raise, so there are few of them.\<close>

lemma exec_count:
  assumes "exec ls s = Some s'" "I s"
    and "\<And>l s s'. l \<in> set ls \<Longrightarrow> I s \<Longrightarrow> step l s = Some s' \<Longrightarrow>
           I s' \<and> m s' + (if P l then 1 else 0) \<le> (m s :: nat)"
  shows "length (filter P ls) + m s' \<le> m s"
  using assms
proof (induction ls arbitrary: s)
  case (Cons l ls)
  then obtain t where t: "step l s = Some t" "exec ls t = Some s'" by (auto elim: exec_ConsE)
  have st: "I t \<and> m t + (if P l then 1 else 0) \<le> m s" by (rule Cons.prems(3)) (use Cons.prems t in auto)
  have "length (filter P ls) + m s' \<le> m t"
    by (rule Cons.IH [OF t(2)]) (use Cons.prems(3) st in auto)
  then show ?case using st by (auto split: if_splits)
qed (simp add: exec_Nil)

end

end
