(* ===== verification/GoTime.thy ===== *)
theory GoTime
  imports Prelude
begin

text \<open>
  The part of Go's package \<^verbatim>\<open>time\<close> that the wrapper computes with: a
  \<^verbatim>\<open>time.Duration\<close> is a signed 64-bit count of nanoseconds, a \<^verbatim>\<open>time.Time\<close> is read as
  nanoseconds since the Unix epoch (with the zero \<^verbatim>\<open>Time\<close>, January 1 of year 1, as the
  value an absent map entry reads as), \<^verbatim>\<open>Sub\<close> saturates, \<^verbatim>\<open>Unix\<close> rounds down to seconds.
\<close>

type_synonym duration = int
type_synonym gotime = int

definition Second :: duration where "Second = 1000000000"
definition Millisecond :: duration where "Millisecond = 1000000"

definition min_duration :: duration where "min_duration = -(2 ^ 63)"
definition max_duration :: duration where "max_duration = 2 ^ 63 - 1"

definition is_duration :: "int \<Rightarrow> bool" where
  "is_duration d \<longleftrightarrow> min_duration \<le> d \<and> d \<le> max_duration"

definition zero_time :: gotime where "zero_time = -62135596800000000000"

text \<open>\<open>t.Sub(u)\<close> saturates at the ends of the int64 range; \<open>time.Since(u)\<close> is \<open>now.Sub(u)\<close>.\<close>

definition time_Sub :: "gotime \<Rightarrow> gotime \<Rightarrow> duration" where
  "time_Sub t u =
     (if t - u < min_duration then min_duration
      else if t - u > max_duration then max_duration else t - u)"

definition time_Add :: "gotime \<Rightarrow> duration \<Rightarrow> gotime" where
  "time_Add t d = t + d"

definition time_Unix :: "gotime \<Rightarrow> int" where
  "time_Unix t = t div Second"

text \<open>
  \<open>d.Seconds() == 0\<close>: \<^verbatim>\<open>Seconds\<close> adds the whole seconds and the nanosecond rest, which have
  the same sign, so the sum is zero exactly for the zero duration.
\<close>

definition zero_seconds :: "duration \<Rightarrow> bool" where
  "zero_seconds d \<longleftrightarrow> d = 0"

lemma time_Sub_range: "is_duration (time_Sub t u)"
  by (simp add: is_duration_def time_Sub_def min_duration_def max_duration_def)

lemma time_Sub_exact: "is_duration (t - u) \<Longrightarrow> time_Sub t u = t - u"
  by (simp add: is_duration_def time_Sub_def)

lemma time_Sub_mono: "t \<le> t' \<Longrightarrow> time_Sub t u \<le> time_Sub t' u"
  by (simp add: time_Sub_def min_duration_def max_duration_def)

lemma time_Unix_mono: "t \<le> t' \<Longrightarrow> time_Unix t \<le> time_Unix t'"
  by (simp add: time_Unix_def Second_def zdiv_mono1)

text \<open>From the zero time to any instant after the epoch is longer than a duration can hold.\<close>

lemma time_Sub_zero_time: "0 \<le> t \<Longrightarrow> time_Sub t zero_time = max_duration"
  by (simp add: time_Sub_def zero_time_def min_duration_def max_duration_def)

end
