(* ===== verification/GoFloat.thy ===== *)
theory GoFloat
  imports Prelude "HOL-Library.Log_Nat"
begin

text \<open>
  Go's \<^verbatim>\<open>float64\<close> on the finite values the wrapper computes with: a value is the rational
  number it denotes, and every operation rounds its exact result to 53 significant bits,
  ties to even (with the subnormal limit). Infinities and NaN do not arise: every value is
  bounded far below the largest float.
\<close>

text \<open>The exponent of the leading bit: \<open>2 ^ ilog2 q \<le> q < 2 ^ (ilog2 q + 1)\<close>.\<close>

definition ilog2 :: "rat \<Rightarrow> int" where
  "ilog2 q =
     (if q \<ge> 1 then int (floorlog 2 (nat \<lfloor>q\<rfloor>)) - 1
      else - int (floorlog 2 (nat (\<lceil>1 / q\<rceil> - 1))))"

definition rne :: "rat \<Rightarrow> int" where
  "rne q =
     (let f = \<lfloor>q\<rfloor>; r = q - of_int f
      in if r < 1 / 2 then f else if r > 1 / 2 then f + 1 else if even f then f else f + 1)"

definition rnd64 :: "rat \<Rightarrow> rat" where
  "rnd64 q =
     (if q = 0 then 0
      else (let e = max (ilog2 \<bar>q\<bar> - 52) (- 1074);
                u = (if e \<ge> 0 then 2 ^ nat e else 1 / 2 ^ nat (- e))
            in of_int (rne (q / u)) * u))"

definition f64_add :: "rat \<Rightarrow> rat \<Rightarrow> rat" where "f64_add a b = rnd64 (a + b)"
definition f64_sub :: "rat \<Rightarrow> rat \<Rightarrow> rat" where "f64_sub a b = rnd64 (a - b)"
definition f64_mul :: "rat \<Rightarrow> rat \<Rightarrow> rat" where "f64_mul a b = rnd64 (a * b)"
definition f64_div :: "rat \<Rightarrow> rat \<Rightarrow> rat" where "f64_div a b = rnd64 (a / b)"
definition f64_of_int :: "int \<Rightarrow> rat" where "f64_of_int i = rnd64 (of_int i)"

text \<open>Conversion to an integer type drops the fraction.\<close>

definition trunc_rat :: "rat \<Rightarrow> int" where
  "trunc_rat q = (if q \<ge> 0 then \<lfloor>q\<rfloor> else \<lceil>q\<rceil>)"

lemma rne_of_int [simp]: "rne (of_int i) = i"
  by (simp add: rne_def)

lemma rnd64_0 [simp]: "rnd64 0 = 0"
  by (simp add: rnd64_def)

lemma ilog2_of_nat_le:
  assumes "1 \<le> n" "n < 2 ^ 53"
  shows "ilog2 (of_nat n) \<le> 52"
proof -
  have "floorlog 2 n \<le> 53"
    using assms by (simp add: floorlog_leI)
  moreover have "\<lfloor>of_nat n :: rat\<rfloor> = int n" by simp
  ultimately show ?thesis using assms by (simp add: ilog2_def)
qed

text \<open>Integers below \<open>2 ^ 53\<close> are exact.\<close>

lemma rnd64_exact:
  fixes i :: int
  assumes "\<bar>i\<bar> < 2 ^ 53"
  shows "rnd64 (of_int i) = of_int i"
proof (cases "i = 0")
  case False
  let ?e = "max (ilog2 \<bar>of_int i :: rat\<bar> - 52) (- 1074)"
  have "\<bar>of_int i :: rat\<bar> = of_nat (nat \<bar>i\<bar>)" by simp
  then have "ilog2 \<bar>of_int i :: rat\<bar> \<le> 52"
    using ilog2_of_nat_le [of "nat \<bar>i\<bar>"] assms False by auto
  then have e: "?e \<le> 0" by simp
  have q: "(of_int i :: rat) / (1 / 2 ^ k) = of_int (i * 2 ^ k)" for k by simp
  show ?thesis
  proof (cases "?e = 0")
    case True
    then show ?thesis using False by (simp add: rnd64_def Let_def)
  next
    case neq: False
    with e have "\<not> ?e \<ge> 0" by simp
    then have "rnd64 (of_int i) = of_int (rne (of_int i / (1 / 2 ^ nat (- ?e)))) * (1 / 2 ^ nat (- ?e))"
      using False by (simp add: rnd64_def Let_def)
    also have "\<dots> = of_int i"
      unfolding q rne_of_int by simp
    finally show ?thesis .
  qed
qed simp

lemma rnd64_exact_nat: "n < 2 ^ 53 \<Longrightarrow> rnd64 (of_nat n) = of_nat n"
  using rnd64_exact [of "int n"] by simp

lemma rnd64_numeral [simp]: "(numeral k :: int) < 2 ^ 53 \<Longrightarrow> rnd64 (numeral k) = numeral k"
  using rnd64_exact [of "numeral k"] by simp

lemma rnd64_1 [simp]: "rnd64 1 = 1"
  using rnd64_exact [of 1] by simp

lemma f64_of_int_exact: "\<bar>i\<bar> < 2 ^ 53 \<Longrightarrow> f64_of_int i = of_int i"
  by (simp add: f64_of_int_def rnd64_exact)

lemma trunc_rat_of_int [simp]: "trunc_rat (of_int i) = i"
  by (simp add: trunc_rat_def)

text \<open>Rounding a value below 1 moves it by at most a quarter.\<close>

lemma rne_bounds: "of_int (rne q) \<le> q + 1 / 2" "q \<ge> 0 \<Longrightarrow> rne q \<ge> 0"
proof -
  show "of_int (rne q) \<le> q + 1 / 2"
    unfolding rne_def Let_def using of_int_floor_le [of q]
    by (auto simp del: of_int_floor_le)
  show "q \<ge> 0 \<Longrightarrow> rne q \<ge> 0" by (auto simp: rne_def Let_def)
qed

lemma rnd64_small:
  assumes "0 \<le> q" "q < 1"
  shows "0 \<le> rnd64 q \<and> rnd64 q \<le> q + 1 / 4"
proof (cases "q = 0")
  case False
  define e where "e = max (ilog2 \<bar>q\<bar> - 52) (- 1074)"
  define u :: rat where "u = 1 / 2 ^ nat (- e)"
  have e: "e < 0" "nat (- e) \<ge> 1" using assms by (auto simp: e_def ilog2_def)
  have "(2::rat) ^ 1 \<le> 2 ^ nat (- e)" using e(2) by (intro power_increasing) auto
  then have u: "0 < u" "u \<le> 1 / 2" by (auto simp: u_def field_simps)
  have r: "rnd64 q = of_int (rne (q / u)) * u"
    using False e(1) by (simp add: rnd64_def Let_def e_def [symmetric] u_def)
  have "of_int (rne (q / u)) * u \<le> (q / u + 1 / 2) * u"
    using rne_bounds(1) u(1) by (intro mult_right_mono) auto
  also have "\<dots> = q + u / 2" using u(1) by (simp add: field_simps)
  also have "\<dots> \<le> q + 1 / 4" using u(2) by simp
  finally show ?thesis using r rne_bounds(2) [of "q / u"] assms(1) u(1) by simp
qed simp

end
