(* ===== verification/GoDuration.thy ===== *)
theory GoDuration
  imports GoTime GoText GoFloat
begin

text \<open>
  \<^verbatim>\<open>time.ParseDuration\<close>, \<^verbatim>\<open>Duration.String\<close> and \<^verbatim>\<open>Duration.Seconds\<close> of Go's standard library,
  as the configuration (delays, periods, deadlines, lock time-to-live) uses them. The parser
  computes with \<^verbatim>\<open>uint64\<close>, whose bounds it checks before every step; the one addition that can
  wrap is written with \<open>mod 2 ^ 64\<close>.
\<close>

section \<open>Parsing\<close>

fun leadingInt :: "nat \<Rightarrow> string \<Rightarrow> (nat \<times> string) option" where
  "leadingInt x [] = Some (x, [])"
| "leadingInt x (c # s) =
     (if \<not> is_digit c then Some (x, c # s)
      else if x > 2 ^ 63 div 10 then None
      else (let x' = x * 10 + digit_val c in if x' > 2 ^ 63 then None else leadingInt x' s))"

fun leadingFraction :: "nat \<Rightarrow> rat \<Rightarrow> bool \<Rightarrow> string \<Rightarrow> nat \<times> rat \<times> string" where
  "leadingFraction x scale overflow [] = (x, scale, [])"
| "leadingFraction x scale overflow (c # s) =
     (if \<not> is_digit c then (x, scale, c # s)
      else if overflow then leadingFraction x scale overflow s
      else if x > (2 ^ 63 - 1) div 10 then leadingFraction x scale True s
      else (let y = x * 10 + digit_val c
            in if y > 2 ^ 63 then leadingFraction x scale True s
               else leadingFraction y (f64_mul scale 10) False s))"

definition unitMap :: "(string \<times> nat) list" where
  "unitMap =
     [(''ns'', 1), (''us'', 1000), ([CHR 0xC2, CHR 0xB5, CHR ''s''], 1000),
      ([CHR 0xCE, CHR 0xBC, CHR ''s''], 1000), (''ms'', 1000000),
      (''s'', 1000000000), (''m'', 60000000000), (''h'', 3600000000000)]"

definition is_unit_char :: "char \<Rightarrow> bool" where
  "is_unit_char c \<longleftrightarrow> \<not> (c = CHR ''.'' \<or> is_digit c)"

text \<open>The fraction of a unit: \<^verbatim>\<open>uint64(float64(f) * (float64(unit) / scale))\<close>.\<close>

definition frac_value :: "nat \<Rightarrow> rat \<Rightarrow> nat \<Rightarrow> nat" where
  "frac_value f scale u =
     nat (trunc_rat (f64_mul (rnd64 (of_nat f)) (f64_div (rnd64 (of_nat u)) scale)))"

text \<open>One turn of the loop: a number with its unit, as nanoseconds, and the rest of the text.\<close>

definition parse_component :: "string \<Rightarrow> (nat \<times> string) option" where
  "parse_component s =
     (if s = [] \<or> \<not> (hd s = CHR ''.'' \<or> is_digit (hd s)) then None
      else (case leadingInt 0 s of
        None \<Rightarrow> None
      | Some (v, s1) \<Rightarrow>
          (let pre = (length s1 \<noteq> length s);
               dot = (s1 \<noteq> [] \<and> hd s1 = CHR ''.'');
               (f, scale, s2) = (if dot then leadingFraction 0 1 False (tl s1) else (0, 1, s1));
               post = (dot \<and> length s2 \<noteq> length (tl s1))
           in if \<not> pre \<and> \<not> post then None
              else (let un = takeWhile is_unit_char s2; s3 = dropWhile is_unit_char s2
                    in if un = [] then None
                       else (case map_of unitMap un of
                               None \<Rightarrow> None
                             | Some unit \<Rightarrow>
                                 if v > 2 ^ 63 div unit then None
                                 else (let v1 = v * unit;
                                           v2 = (if f > 0 then v1 + frac_value f scale unit else v1)
                                       in if f > 0 \<and> v2 > 2 ^ 63 then None else Some (v2, s3)))))))"

lemma leadingInt_length: "leadingInt x s = Some (v, s') \<Longrightarrow> length s' \<le> length s"
  by (induction x s rule: leadingInt.induct) (auto simp: Let_def split: if_splits)

lemma leadingFraction_length:
  "leadingFraction x sc ov s = (f, sc', s') \<Longrightarrow> length s' \<le> length s"
  by (induction x sc ov s rule: leadingFraction.induct) (auto simp: Let_def split: if_splits)

lemma dropWhile_shorter: "takeWhile P s \<noteq> [] \<Longrightarrow> length (dropWhile P s) < length s"
  by (cases s) (auto simp: length_dropWhile_le less_Suc_eq_le split: if_splits)

lemma parse_component_length:
  assumes "parse_component s = Some (v, s')"
  shows "length s' < length s"
proof -
  obtain v1 s1 where 1: "leadingInt 0 s = Some (v1, s1)"
    using assms by (auto simp: parse_component_def split: if_splits option.splits)
  obtain f sc s2 where 2: "(if s1 \<noteq> [] \<and> hd s1 = CHR ''.'' then leadingFraction 0 1 False (tl s1)
      else (0, 1, s1)) = (f, sc, s2)"
    by (metis prod_cases3)
  have "length s2 \<le> length s1"
    using 2 leadingFraction_length [of 0 1 False "tl s1" f sc s2]
    by (cases s1) (auto split: if_splits)
  moreover have "length s1 \<le> length s" using 1 by (rule leadingInt_length)
  moreover have "takeWhile is_unit_char s2 \<noteq> [] \<and> s' = dropWhile is_unit_char s2"
    using assms 1 2
    by (auto simp: parse_component_def Let_def split: if_splits option.splits)
  ultimately show ?thesis
    using dropWhile_shorter [of is_unit_char s2] by simp
qed

function parse_loop :: "nat \<Rightarrow> string \<Rightarrow> nat option" where
  "parse_loop d s =
     (if s = [] then Some d
      else (case parse_component s of
              None \<Rightarrow> None
            | Some (v, s') \<Rightarrow>
                (let d' = (d + v) mod 2 ^ 64 in if d' > 2 ^ 63 then None else parse_loop d' s')))"
  by pat_completeness auto
termination
  by (relation "measure (\<lambda>(d, s). length s)") (auto dest: parse_component_length)

declare parse_loop.simps [simp del]

definition ParseDuration :: "string \<Rightarrow> duration option" where
  "ParseDuration orig =
     (let neg = (orig \<noteq> [] \<and> hd orig = CHR ''-'');
          s = (if orig \<noteq> [] \<and> (hd orig = CHR ''-'' \<or> hd orig = CHR ''+'') then tl orig else orig)
      in if s = ''0'' then Some 0
         else if s = [] then None
         else (case parse_loop 0 s of
                 None \<Rightarrow> None
               | Some d \<Rightarrow> if neg then Some (- int d)
                           else if d > 2 ^ 63 - 1 then None else Some (int d)))"

section \<open>Printing\<close>

fun fmtFrac :: "nat \<Rightarrow> nat \<Rightarrow> bool \<Rightarrow> string \<Rightarrow> string \<times> nat" where
  "fmtFrac 0 v prt buf = (if prt then CHR ''.'' # buf else buf, v)"
| "fmtFrac (Suc n) v prt buf =
     (let digit = v mod 10; prt' = (prt \<or> digit \<noteq> 0)
      in fmtFrac n (v div 10) prt' (if prt' then digit_char digit # buf else buf))"

definition format_abs :: "nat \<Rightarrow> string" where
  "format_abs u =
     (if u = 0 then ''0s''
      else if u < 1000 then show_nat u @ ''ns''
      else if u < 1000000 then
        (let (frac, w) = fmtFrac 3 u False []
         in show_nat w @ frac @ [CHR 0xC2, CHR 0xB5, CHR ''s''])
      else if u < 1000000000 then
        (let (frac, w) = fmtFrac 6 u False [] in show_nat w @ frac @ ''ms'')
      else
        (let (frac, w) = fmtFrac 9 u False [];
             secs = show_nat (w mod 60) @ frac @ ''s'';
             mins = w div 60
         in if mins > 0 then
              (let hours = mins div 60; ms = show_nat (mins mod 60) @ ''m'' @ secs
               in if hours > 0 then show_nat hours @ ''h'' @ ms else ms)
            else secs))"

definition Duration_String :: "duration \<Rightarrow> string" where
  "Duration_String d =
     (if d < 0 then CHR ''-'' # format_abs (nat (- d)) else format_abs (nat d))"

section \<open>Seconds\<close>

definition trunc_div :: "int \<Rightarrow> int \<Rightarrow> int" where
  "trunc_div a b = sgn a * sgn b * (\<bar>a\<bar> div \<bar>b\<bar>)"

definition Seconds :: "duration \<Rightarrow> rat" where
  "Seconds d =
     (let sec = trunc_div d Second; nsec = d - sec * Second
      in f64_add (f64_of_int sec) (f64_div (f64_of_int nsec) 1000000000))"

text \<open>Whole seconds are exact (a duration has fewer than \<open>2 ^ 34\<close> of them).\<close>

lemma Seconds_whole:
  assumes "\<bar>k\<bar> < 2 ^ 34"
  shows "Seconds (k * Second) = of_int k"
proof -
  have "trunc_div (k * Second) Second = k"
    by (simp add: trunc_div_def Second_def abs_mult sgn_mult mult_sgn_abs)
  then show ?thesis
    using assms
    by (simp add: Seconds_def f64_add_def f64_div_def f64_of_int_def rnd64_exact Let_def)
qed

text \<open>A few nanoseconds are no whole second.\<close>

lemma Seconds_tiny:
  assumes "0 \<le> d" "d \<le> 250000000"
  shows "trunc_rat (Seconds d) = 0"
proof -
  have s: "trunc_div d Second = 0" using assms by (simp add: trunc_div_def Second_def)
  have d: "f64_of_int d = of_int d"
    unfolding f64_of_int_def by (rule rnd64_exact) (use assms in simp)
  have z: "f64_of_int 0 = 0" by (simp add: f64_of_int_def)
  define q :: rat where "q = of_int d / 1000000000"
  have "of_int d \<le> (of_int 250000000 :: rat)" using assms(2) by (simp only: of_int_le_iff)
  moreover have "0 \<le> (of_int d :: rat)" using assms(1) by (simp only: of_int_0_le_iff)
  ultimately have q: "0 \<le> q" "q \<le> 1 / 4" by (simp_all add: q_def)
  have r: "0 \<le> rnd64 q" "rnd64 q \<le> q + 1 / 4" using rnd64_small [of q] q by auto
  then have r1: "rnd64 q < 1" using q(2) by linarith
  have "0 \<le> rnd64 (rnd64 q)" "rnd64 (rnd64 q) \<le> rnd64 q + 1 / 4"
    using rnd64_small [OF r(1) r1] by auto
  then have "0 \<le> rnd64 (rnd64 q)" "rnd64 (rnd64 q) < 1" using r q by linarith+
  moreover have "Seconds d = rnd64 (rnd64 q)"
    by (simp add: Seconds_def s d z f64_add_def f64_div_def q_def)
  ultimately show ?thesis by (simp add: trunc_rat_def floor_eq_iff)
qed

section \<open>Printing and parsing are inverse\<close>

abbreviation dval :: "nat \<Rightarrow> string \<Rightarrow> nat" where
  "dval x ds \<equiv> foldl (\<lambda>x c. 10 * x + digit_val c) x ds"

definition stops :: "(char \<Rightarrow> bool) \<Rightarrow> string \<Rightarrow> bool" where
  "stops P s \<longleftrightarrow> s = [] \<or> \<not> P (hd s)"

lemma dval_ge: "x \<le> dval x ds"
proof (induction ds arbitrary: x)
  case (Cons c ds)
  have "x \<le> 10 * x + digit_val c" by simp
  also have "\<dots> \<le> dval (10 * x + digit_val c) ds" by (rule Cons.IH)
  finally show ?case by simp
qed simp

lemma leadingInt_digits:
  assumes "list_all is_digit ds" "dval x ds \<le> 2 ^ 63" "stops is_digit rest"
  shows "leadingInt x (ds @ rest) = Some (dval x ds, rest)"
  using assms
proof (induction ds arbitrary: x)
  case Nil
  then show ?case by (cases rest) (auto simp: stops_def)
next
  case (Cons c ds)
  have "10 * x + digit_val c \<le> 2 ^ 63"
    using Cons.prems(2) dval_ge [of "10 * x + digit_val c" ds] by simp
  then have "\<not> x > 2 ^ 63 div 10" "\<not> x * 10 + digit_val c > 2 ^ 63"
    by (simp_all add: mult.commute)
  with Cons show ?case by (simp add: Let_def mult.commute)
qed

lemma pow10_exact: "k \<le> 15 \<Longrightarrow> rnd64 (10 ^ k) = 10 ^ k"
proof -
  assume "k \<le> 15"
  then have "(10::nat) ^ k \<le> 10 ^ 15" by (intro power_increasing) simp_all
  then have "(10::nat) ^ k < 2 ^ 53" by (rule order.strict_trans1) simp
  then show ?thesis using rnd64_exact_nat [of "10 ^ k"] by simp
qed

lemma leadingFraction_digits:
  assumes "list_all is_digit ds" "dval x ds < 10 ^ 9" "stops is_digit rest" "k + length ds \<le> 15"
  shows "leadingFraction x (10 ^ k) False (ds @ rest) = (dval x ds, 10 ^ (k + length ds), rest)"
  using assms
proof (induction ds arbitrary: x k)
  case Nil
  then show ?case by (cases rest) (auto simp: stops_def)
next
  case (Cons c ds)
  have small: "10 * x + digit_val c < 10 ^ 9"
    using Cons.prems(2) dval_ge [of "10 * x + digit_val c" ds] by simp
  have "f64_mul (10 ^ k) 10 = 10 ^ Suc k"
    using pow10_exact [of "Suc k"] Cons.prems(4) by (simp add: f64_mul_def mult.commute)
  moreover have "leadingFraction (10 * x + digit_val c) (10 ^ Suc k) False (ds @ rest) =
      (dval (10 * x + digit_val c) ds, 10 ^ (Suc k + length ds), rest)"
    using Cons.prems by (intro Cons.IH) simp_all
  ultimately show ?case using small Cons.prems(1)
    by (simp add: Let_def mult.commute)
qed

fun digs :: "nat \<Rightarrow> nat \<Rightarrow> string" where
  "digs 0 m = []"
| "digs (Suc n) m = digs n (m div 10) @ [digit_char (m mod 10)]"

lemma length_digs [simp]: "length (digs n m) = n"
  by (induction n arbitrary: m) auto

lemma digs_digits: "list_all is_digit (digs n m)"
  by (induction n arbitrary: m) auto

lemma dval_digs: "dval 0 (digs n m) = m mod 10 ^ n"
  by (induction n arbitrary: m) (auto simp: mod_mult2_eq mult.commute)

lemma digs_mod: "digs n (m mod 10 ^ n) = digs n m"
proof (induction n arbitrary: m)
  case (Suc n)
  have "(m mod 10 ^ Suc n) div 10 = (m div 10) mod 10 ^ n" "(m mod 10 ^ Suc n) mod 10 = m mod 10"
    by (simp_all add: mod_mult2_eq)
  then show ?case using Suc [of "m div 10"] by simp
qed simp

lemma fmtFrac_True: "fmtFrac n v True buf = (CHR ''.'' # digs n v @ buf, v div 10 ^ n)"
  by (induction n arbitrary: v buf) (simp_all add: Let_def div_mult2_eq)

text \<open>Either the fraction is zero and nothing is printed, or \<open>k\<close> digits of it are.\<close>

lemma fmtFrac_spec:
  obtains "v mod 10 ^ n = 0" "fmtFrac n v False [] = ([], v div 10 ^ n)"
  | k f where "1 \<le> k" "k \<le> n" "0 < f" "f < 10 ^ k" "f * 10 ^ (n - k) = v mod 10 ^ n"
      "fmtFrac n v False [] = (CHR ''.'' # digs k f, v div 10 ^ n)"
proof -
  have "(v mod 10 ^ n = 0 \<and> fmtFrac n v False [] = ([], v div 10 ^ n)) \<or>
    (\<exists>k f. 1 \<le> k \<and> k \<le> n \<and> 0 < f \<and> f < 10 ^ k \<and> f * 10 ^ (n - k) = v mod 10 ^ n \<and>
       fmtFrac n v False [] = (CHR ''.'' # digs k f, v div 10 ^ n))"
  proof (induction n arbitrary: v)
    case (Suc n)
    have m: "v mod 10 ^ Suc n = 10 * (v div 10 mod 10 ^ n) + v mod 10"
      by (simp add: mod_mult2_eq)
    show ?case
    proof (cases "v mod 10 = 0")
      case True
      then have "fmtFrac (Suc n) v False [] = fmtFrac n (v div 10) False []"
        by (simp add: Let_def)
      moreover from Suc [of "v div 10"] show ?thesis
      proof (elim disjE conjE exE)
        assume "v div 10 mod 10 ^ n = 0" "fmtFrac n (v div 10) False [] = ([], v div 10 div 10 ^ n)"
        then show ?thesis using True calculation m by (simp add: div_mult2_eq)
      next
        fix k f
        assume "1 \<le> k" "k \<le> n" "0 < f" "f < 10 ^ k" "f * 10 ^ (n - k) = v div 10 mod 10 ^ n"
          "fmtFrac n (v div 10) False [] = (CHR ''.'' # digs k f, v div 10 div 10 ^ n)"
        then show ?thesis using True calculation m
          by (intro disjI2 exI [of _ k] exI [of _ f]) (simp add: div_mult2_eq Suc_diff_le)
      qed
    next
      case False
      then have "fmtFrac (Suc n) v False [] = (CHR ''.'' # digs (Suc n) v, v div 10 ^ Suc n)"
        by (simp add: Let_def fmtFrac_True div_mult2_eq)
      moreover have "digs (Suc n) v = digs (Suc n) (v mod 10 ^ Suc n)"
        by (rule digs_mod [symmetric])
      moreover have "0 < v mod 10 ^ Suc n" using m False by simp
      ultimately show ?thesis
        by (intro disjI2 exI [of _ "Suc n"] exI [of _ "v mod 10 ^ Suc n"]) simp
    qed
  qed simp
  then show thesis
  proof (elim disjE exE conjE)
    assume "v mod 10 ^ n = 0" "fmtFrac n v False [] = ([], v div 10 ^ n)"
    then show thesis by (rule that(1))
  next
    fix k f
    assume "1 \<le> k" "k \<le> n" "0 < f" "f < 10 ^ k" "f * 10 ^ (n - k) = v mod 10 ^ n"
      "fmtFrac n v False [] = (CHR ''.'' # digs k f, v div 10 ^ n)"
    then show thesis by (rule that(2))
  qed
qed

lemma frac_value_exact:
  assumes "f < 10 ^ k" "k \<le> n" "n \<le> 9"
  shows "frac_value f (10 ^ k) (10 ^ n) = f * 10 ^ (n - k)"
proof -
  have "(10::nat) ^ k \<le> 10 ^ 9" using assms by (intro power_increasing) simp_all
  with assms(1) have f: "f < 2 ^ 53" by simp
  have "f * 10 ^ (n - k) < 10 ^ k * 10 ^ (n - k)" using assms(1) by simp
  also have "\<dots> = (10::nat) ^ n" using assms(2) by (simp flip: power_add)
  also have "\<dots> \<le> 10 ^ 9" using assms(3) by (intro power_increasing) simp_all
  finally have p: "f * 10 ^ (n - k) < 2 ^ 53" by simp
  have "(10::rat) ^ n / 10 ^ k = 10 ^ (n - k)" using assms(2) by (simp add: power_diff)
  then have "f64_div (rnd64 (of_nat (10 ^ n))) (10 ^ k) = 10 ^ (n - k)"
    using assms pow10_exact [of n] pow10_exact [of "n - k"] by (simp add: f64_div_def)
  moreover have "rnd64 (of_nat (f * 10 ^ (n - k))) = of_nat (f * 10 ^ (n - k))"
    using p by (rule rnd64_exact_nat)
  then have "f64_mul (of_nat f) (10 ^ (n - k)) = of_nat (f * 10 ^ (n - k))"
    by (simp add: f64_mul_def)
  ultimately have "f64_mul (rnd64 (of_nat f)) (f64_div (rnd64 (of_nat (10 ^ n))) (10 ^ k)) =
      of_nat (f * 10 ^ (n - k))"
    using rnd64_exact_nat [OF f] by simp
  moreover have "trunc_rat (of_nat m) = int m" for m by (simp add: trunc_rat_def)
  ultimately show ?thesis by (simp only: frac_value_def nat_int)
qed

definition unit_text :: "string \<Rightarrow> nat \<Rightarrow> bool" where
  "unit_text u n \<longleftrightarrow> u \<noteq> [] \<and> list_all is_unit_char u \<and> map_of unitMap u = Some n"

lemma takeWhile_unit:
  assumes "unit_text u m" "stops is_unit_char rest"
  shows "takeWhile is_unit_char (u @ rest) = u" "dropWhile is_unit_char (u @ rest) = rest"
  using assms
  by (auto simp: unit_text_def stops_def list_all_iff takeWhile_append2 dropWhile_append2
      takeWhile_eq_Nil_iff dropWhile_eq_self_iff)

lemma unit_text_stops: "unit_text u n \<Longrightarrow> stops is_digit (u @ rest)"
  by (cases u) (auto simp: unit_text_def stops_def is_unit_char_def)

lemma unit_text_no_dot: "unit_text u n \<Longrightarrow> hd (u @ rest) \<noteq> CHR ''.''"
  by (cases u) (auto simp: unit_text_def is_unit_char_def)

lemma leadingInt_show_nat:
  assumes "w \<le> 2 ^ 63" "stops is_digit rest"
  shows "leadingInt 0 (show_nat w @ rest) = Some (w, rest)"
  using leadingInt_digits [of "show_nat w" 0 rest] assms show_nat_digits [of w] digits_val_show_nat [of w]
  by (simp add: digits_val_def list_all_iff)

lemma hd_show_nat_append: "is_digit (hd (show_nat w @ r))" "show_nat w @ r \<noteq> []"
  using hd_show_nat [of w] by (simp_all add: hd_append)

text \<open>A whole number with its unit.\<close>

lemma parse_component_int:
  assumes "unit_text u m" "0 < m" "w * m \<le> 2 ^ 63" "stops is_unit_char rest"
  shows "parse_component (show_nat w @ u @ rest) = Some (w * m, rest)"
proof -
  have "w \<le> w * m" using assms(2) by simp
  then have "w \<le> 2 ^ 63" using assms(3) by (rule order_trans)
  then have li: "leadingInt 0 (show_nat w @ u @ rest) = Some (w, u @ rest)"
    using assms by (intro leadingInt_show_nat unit_text_stops) simp_all
  have "\<not> w > 2 ^ 63 div m"
    using assms(2,3) by (simp add: not_less less_eq_div_iff_mult_less_eq)
  moreover have "u \<noteq> []" "map_of unitMap u = Some m" using assms(1) by (simp_all add: unit_text_def)
  ultimately show ?thesis
    using li hd_show_nat_append [of w "u @ rest"] unit_text_no_dot [OF assms(1), of rest]
      takeWhile_unit [OF assms(1,4)]
    by (simp add: parse_component_def Let_def)
qed

text \<open>A number with the fraction \<^verbatim>\<open>fmtFrac\<close> prints.\<close>

lemma parse_component_frac:
  assumes "unit_text u (10 ^ n)" "n \<le> 9" "v \<le> 2 ^ 63" "stops is_unit_char rest"
    and "fmtFrac n v False [] = (fr, w)"
  shows "parse_component (show_nat w @ fr @ u @ rest) = Some (v, rest)"
proof (cases rule: fmtFrac_spec [of v n])
  case 1
  then have "fr = []" "w * 10 ^ n = v" using assms(5) by (simp_all add: dvd_eq_mod_eq_0)
  then show ?thesis using parse_component_int [OF assms(1), of w rest] assms(3,4) by simp
next
  case (2 k f)
  have frq: "fr = CHR ''.'' # digs k f" and w: "w = v div 10 ^ n" using 2 assms(5) by simp_all
  have v: "v = w * 10 ^ n + f * 10 ^ (n - k)" using 2(5) w by (metis div_mult_mod_eq)
  have le: "w * 10 ^ n \<le> 2 ^ 63" using assms(3) v by simp
  have "w \<le> w * 10 ^ n" by simp
  then have "w \<le> 2 ^ 63" using le by (rule order_trans)
  then have li: "leadingInt 0 (show_nat w @ fr @ u @ rest) = Some (w, fr @ u @ rest)"
    using le frq by (intro leadingInt_show_nat) (simp_all add: stops_def is_digit_def)
  have "(10::nat) ^ k \<le> 10 ^ 9" using 2 assms(2) by (intro power_increasing) simp_all
  then have "f < 10 ^ 9" using 2(4) by simp
  then have lf: "leadingFraction 0 1 False (digs k f @ u @ rest) = (f, 10 ^ k, u @ rest)"
    using leadingFraction_digits [of "digs k f" 0 "u @ rest" 0] 2 assms(2)
      unit_text_stops [OF assms(1)] by (simp add: digs_digits dval_digs)
  have "\<not> w > 2 ^ 63 div 10 ^ n"
    using le by (simp add: not_less less_eq_div_iff_mult_less_eq)
  moreover have "u \<noteq> []" "map_of unitMap u = Some (10 ^ n)"
    using assms(1) by (simp_all add: unit_text_def)
  moreover have "frac_value f (10 ^ k) (10 ^ n) = f * 10 ^ (n - k)"
    using 2 assms(2) by (intro frac_value_exact)
  ultimately show ?thesis
    using li lf frq v 2(3) assms(3) hd_show_nat_append [of w "fr @ u @ rest"]
      takeWhile_unit [OF assms(1,4)]
    by (simp add: parse_component_def Let_def)
qed

lemma parse_loop_step:
  assumes "parse_component s = Some (v, s')" "s \<noteq> []" "d + v \<le> 2 ^ 63"
  shows "parse_loop d s = parse_loop (d + v) s'"
  using assms by (subst parse_loop.simps) (simp add: Let_def)

lemma parse_loop_end [simp]: "parse_loop d [] = Some d"
  by (subst parse_loop.simps) simp

lemma unit_texts [simp]:
  "unit_text ''ns'' (Suc 0)" "unit_text ''ms'' 1000000" "unit_text ''s'' 1000000000"
  "unit_text ''m'' 60000000000" "unit_text ''h'' 3600000000000"
  "unit_text [CHR 0xC2, CHR 0xB5, CHR ''s''] 1000"
  by (simp_all add: unit_text_def unitMap_def is_unit_char_def is_digit_def)

lemma fmtFrac_snd: "fmtFrac n v False [] = (fr, w) \<Longrightarrow> w = v div 10 ^ n"
  by (cases rule: fmtFrac_spec [of v n]) simp_all

lemma stops_show_nat: "stops is_unit_char (show_nat n @ r)"
  using hd_show_nat_append [of n r] by (simp add: stops_def is_unit_char_def)

text \<open>The printed fraction depends on the fractional part only.\<close>

lemma fmtFrac_cong:
  "v mod 10 ^ n = v' mod 10 ^ n \<Longrightarrow> fst (fmtFrac n v p b) = fst (fmtFrac n v' p b)"
proof (induction n arbitrary: v v' p b)
  case (Suc n)
  have split: "x mod 10 ^ Suc n = 10 * (x div 10 mod 10 ^ n) + x mod 10" for x :: nat
    by (simp add: mod_mult2_eq)
  have "10 * (v div 10 mod 10 ^ n) + v mod 10 = 10 * (v' div 10 mod 10 ^ n) + v' mod 10"
    using Suc.prems by (simp only: split)
  moreover have "v mod 10 < 10" "v' mod 10 < 10" by simp_all
  moreover have "r = r' \<and> a = b" if "10 * a + r = 10 * b + r'" "r < 10" "r' < 10" for a b r r' :: nat
    using that by (cases a b rule: linorder_cases) linarith+
  ultimately have "v mod 10 = v' mod 10 \<and> v div 10 mod 10 ^ n = v' div 10 mod 10 ^ n"
    by blast
  then show ?case using Suc.IH [of "v div 10" "v' div 10"] by (simp add: Let_def)
qed simp

lemma parse_loop_seconds:
  assumes "fmtFrac 9 u False [] = (fr, w)" "d + (s * 10 ^ 9 + u mod 10 ^ 9) \<le> 2 ^ 63"
  shows "parse_loop d (show_nat s @ fr @ ''s'') = Some (d + (s * 10 ^ 9 + u mod 10 ^ 9))"
proof -
  let ?v = "s * 10 ^ 9 + u mod 10 ^ 9"
  have "fst (fmtFrac 9 ?v False []) = fr"
    using fmtFrac_cong [of ?v 9 u False "[]"] assms(1) by simp
  then have "fmtFrac 9 ?v False [] = (fr, ?v div 10 ^ 9)"
    using fmtFrac_snd [of 9 ?v] by (metis prod.collapse)
  then have "fmtFrac 9 ?v False [] = (fr, s)" by simp
  then have "parse_component (show_nat s @ fr @ ''s'' @ []) = Some (?v, [])"
    using assms(2) by (intro parse_component_frac) (simp_all add: stops_def)
  then have "parse_loop d (show_nat s @ fr @ ''s'' @ []) = parse_loop (d + ?v) []"
    using assms(2) by (intro parse_loop_step) simp_all
  then show ?thesis by simp
qed

lemma parse_loop_unit:
  assumes "unit_text u m" "0 < m" "d + w * m \<le> 2 ^ 63" "stops is_unit_char rest"
  shows "parse_loop d (show_nat w @ u @ rest) = parse_loop (d + w * m) rest"
  using assms by (intro parse_loop_step parse_component_int) simp_all

lemma parse_loop_small:
  assumes "unit_text t (10 ^ n)" "n \<le> 9" "u \<le> 2 ^ 63" "fmtFrac n u False [] = (fr, w)"
  shows "parse_loop 0 (show_nat w @ fr @ t) = Some u"
proof -
  have "parse_component (show_nat w @ fr @ t @ []) = Some (u, [])"
    using assms by (intro parse_component_frac) (simp_all add: stops_def)
  then have "parse_loop 0 (show_nat w @ fr @ t @ []) = parse_loop (0 + u) []"
    using assms(3) by (intro parse_loop_step) simp_all
  then show ?thesis by simp
qed

lemma parse_loop_format:
  assumes "u \<le> 2 ^ 63"
  shows "parse_loop 0 (format_abs u) = Some u"
proof -
  have units: "unit_text [CHR 0xC2, CHR 0xB5, CHR ''s''] (10 ^ 3)" "unit_text ''ms'' (10 ^ 6)" by simp_all
  consider "u = 0" | "0 < u" "u < 1000" | "1000 \<le> u" "u < 1000000"
    | "1000000 \<le> u" "u < 1000000000" | "1000000000 \<le> u" by linarith
  then show ?thesis
  proof cases
    case 1
    have "show_nat 0 = ''0''" by code_simp
    then show ?thesis
      using parse_loop_unit [of "''s''" 1000000000 0 0 "[]"] 1 by (simp add: format_abs_def stops_def)
  next
    case 2
    then show ?thesis
      using parse_loop_unit [of "''ns''" 1 0 u "[]"] by (simp add: format_abs_def stops_def)
  next
    case 3
    then show ?thesis using parse_loop_small [OF units(1) _ assms]
      by (auto simp: format_abs_def split: prod.splits)
  next
    case 4
    then show ?thesis using parse_loop_small [OF units(2) _ assms]
      by (auto simp: format_abs_def split: prod.splits)
  next
    case 5
    obtain fr w where fw: "fmtFrac 9 u False [] = (fr, w)" by fastforce
    then have w: "w = u div 10 ^ 9" by (rule fmtFrac_snd)
    have u: "u = w * 10 ^ 9 + u mod 10 ^ 9" unfolding w by simp
    define mins where "mins = w div 60"
    have wu: "w * 1000000000 \<le> u" unfolding w by simp
    have mw: "mins * 60 \<le> w" unfolding mins_def by simp
    have hm: "mins div 60 * 60 \<le> mins" by simp
    have w60: "w = mins * 60 + w mod 60" by (simp add: mins_def)
    have m60: "mins = mins div 60 * 60 + mins mod 60" by simp
    have secs: "parse_loop d (show_nat (w mod 60) @ fr @ ''s'') = Some u"
      if "d = mins * 60000000000" for d
      using parse_loop_seconds [OF fw, of d "w mod 60"] u w60 assms that by simp
    have ms: "parse_loop d (show_nat (mins mod 60) @ ''m'' @ show_nat (w mod 60) @ fr @ ''s'') = Some u"
      if "d = mins div 60 * 3600000000000" for d
    proof -
      have "d + mins mod 60 * 60000000000 = mins * 60000000000" using that m60 by linarith
      moreover have "mins * 60000000000 \<le> 2 ^ 63" using wu mw assms by linarith
      ultimately show ?thesis
        using parse_loop_unit [of "''m''" 60000000000 d "mins mod 60"] stops_show_nat secs by simp
    qed
    have hs: "parse_loop 0 (show_nat (mins div 60) @ ''h'' @
        show_nat (mins mod 60) @ ''m'' @ show_nat (w mod 60) @ fr @ ''s'') = Some u"
    proof -
      have "mins div 60 * 3600000000000 \<le> 2 ^ 63" using wu mw hm assms by linarith
      then show ?thesis
        using parse_loop_unit [of "''h''" 3600000000000 0 "mins div 60"] stops_show_nat ms by simp
    qed
    show ?thesis
    proof (cases "mins > 0")
      case True
      then show ?thesis using 5 fw ms [of 0] hs
        by (auto simp: format_abs_def Let_def mins_def [symmetric])
    next
      case False
      then show ?thesis using 5 fw secs [of 0]
        by (simp add: format_abs_def Let_def mins_def [symmetric])
    qed
  qed
qed

lemma format_abs_hd: "format_abs u \<noteq> []" "is_digit (hd (format_abs u))"
proof -
  have "\<exists>n r. format_abs u = show_nat n @ r"
  proof (cases "u = 0")
    case True
    have "show_nat 0 = ''0''" by code_simp
    then have "format_abs u = show_nat 0 @ ''s''" using True by (simp add: format_abs_def)
    then show ?thesis by blast
  next
    case False
    then show ?thesis by (auto simp: format_abs_def Let_def split: prod.splits)
  qed
  then show "format_abs u \<noteq> []" "is_digit (hd (format_abs u))"
    using hd_show_nat_append by auto
qed

lemma parse_bare_zero: "parse_loop d ''0'' = None"
  by (subst parse_loop.simps)
    (simp add: parse_component_def is_digit_def Let_def digit_val_def)

text \<open>Every duration is read back from its text.\<close>

theorem ParseDuration_String:
  assumes "is_duration d"
  shows "ParseDuration (Duration_String d) = Some d"
proof -
  have pl: "parse_loop 0 (format_abs u) = Some u" "format_abs u \<noteq> ''0''" if "u \<le> 2 ^ 63" for u
    using parse_loop_format [OF that] parse_bare_zero [of 0] by auto
  have pm: "hd (format_abs u) \<noteq> CHR ''-''" "hd (format_abs u) \<noteq> CHR ''+''" for u
    using format_abs_hd(2) [of u] by (auto simp: is_digit_def)
  show ?thesis
  proof (cases "d < 0")
    case True
    have "nat (- d) \<le> 2 ^ 63" using assms by (simp add: is_duration_def min_duration_def nat_le_iff)
    then show ?thesis using True pl format_abs_hd
      by (simp add: ParseDuration_def Duration_String_def Let_def)
  next
    case False
    have "nat d \<le> 2 ^ 63 - 1" using assms by (simp add: is_duration_def max_duration_def nat_le_iff)
    then show ?thesis using False pl [of "nat d"] pm [of "nat d"] format_abs_hd(1) [of "nat d"]
      by (simp add: ParseDuration_def Duration_String_def Let_def)
  qed
qed

end
