(* ===== verification/DurationCodec.thy ===== *)
theory DurationCodec
  imports GoDuration
begin

text \<open>
  The wrapper's \<^verbatim>\<open>Duration\<close> type (pkg/process/duration.go): how a delay, period or deadline
  is read from and written to JSON and YAML. A decoder is given the value the JSON or YAML
  library produced (\<open>None\<close> when that failed) and the duration it decodes into; it returns the
  new contents of that variable with the error, if any.
\<close>

datatype json =
    JNull
  | JBool bool
  | JNum rat
  | JStr string
  | JArr "json list"
  | JObj "(string \<times> json) list"

datatype duration_error = LibraryError | ParseError string | InvalidDuration

definition MarshalJSON :: "duration \<Rightarrow> json" where
  "MarshalJSON d = JStr (Duration_String d)"

text \<open>
  \<^verbatim>\<open>time.Duration(value)\<close> of a float64 drops the fraction; outside the int64 range Go leaves
  the result to the implementation (the argument \<open>oob\<close>).
\<close>

definition duration_of_float :: "(rat \<Rightarrow> duration) \<Rightarrow> rat \<Rightarrow> duration" where
  "duration_of_float oob v = (if is_duration (trunc_rat v) then trunc_rat v else oob v)"

definition UnmarshalJSON ::
  "(rat \<Rightarrow> duration) \<Rightarrow> json option \<Rightarrow> duration \<Rightarrow> duration \<times> duration_error option" where
  "UnmarshalJSON oob b d =
     (case b of
        None \<Rightarrow> (d, Some LibraryError)
      | Some v \<Rightarrow>
          (case v of
             JNum value \<Rightarrow> (duration_of_float oob value, None)
           | JStr value \<Rightarrow>
               (case ParseDuration value of
                  None \<Rightarrow> (0, Some (ParseError value))
                | Some td \<Rightarrow> (td, None))
           | _ \<Rightarrow> (d, Some InvalidDuration)))"

definition MarshalYAML :: "(string \<Rightarrow> 'y) \<Rightarrow> duration \<Rightarrow> 'y" where
  "MarshalYAML yaml_marshal d = yaml_marshal (Duration_String d)"

definition UnmarshalYAML ::
  "string option \<Rightarrow> duration \<Rightarrow> duration \<times> duration_error option" where
  "UnmarshalYAML tm d =
     (case tm of
        None \<Rightarrow> (d, Some LibraryError)
      | Some t \<Rightarrow>
          (case ParseDuration t of
             None \<Rightarrow> (d, Some (ParseError t))
           | Some td \<Rightarrow> (td, None)))"

text \<open>C31: JSON round trip. Every duration of the 64-bit range is read back from the JSON it is
  written as, whatever the variable held before.\<close>

theorem duration_json_roundtrip:
  assumes "is_duration d"
  shows "UnmarshalJSON oob (Some (MarshalJSON d)) old = (d, None)"
  using ParseDuration_String [OF assms] by (simp add: UnmarshalJSON_def MarshalJSON_def)

theorem duration_json_roundtrip_witness:
  "is_duration (- 5400000000001) \<and>
   UnmarshalJSON (\<lambda>_. 0) (Some (MarshalJSON (- 5400000000001))) 7 = (- 5400000000001, None)"
proof -
  have "is_duration (- 5400000000001)"
    by (simp add: is_duration_def min_duration_def max_duration_def)
  then show ?thesis using duration_json_roundtrip by blast
qed

text \<open>YAML round trip and bad input. With a YAML library that reads back the string it wrote,
  a duration survives YAML; a text that is no duration is refused by both decoders, but the JSON
  decoder clears the variable while the YAML decoder leaves it as it was.\<close>

theorem duration_yaml_roundtrip_and_errors:
  assumes "is_duration d" and "\<forall>s. yaml_unmarshal (yaml_marshal s) = Some s"
    and "ParseDuration t = None"
  shows "UnmarshalYAML (yaml_unmarshal (MarshalYAML yaml_marshal d)) old = (d, None) \<and>
     UnmarshalYAML (Some t) old = (old, Some (ParseError t)) \<and>
     UnmarshalJSON oob (Some (JStr t)) old = (0, Some (ParseError t))"
  using assms by (simp add: UnmarshalYAML_def MarshalYAML_def UnmarshalJSON_def ParseDuration_String)

theorem duration_yaml_roundtrip_and_errors_witness:
  "UnmarshalYAML (Some (MarshalYAML (\<lambda>s. s) 1500000000)) 7 = (1500000000, None) \<and>
   UnmarshalYAML (Some ''5'') 7 = (7, Some (ParseError ''5'')) \<and>
   UnmarshalJSON (\<lambda>_. 0) (Some (JStr ''5'')) 7 = (0, Some (ParseError ''5''))"
proof -
  have d: "is_duration 1500000000"
    by (simp add: is_duration_def min_duration_def max_duration_def)
  have "parse_loop 0 ''5'' = None"
    by (subst parse_loop.simps)
      (simp add: parse_component_def is_digit_def Let_def digit_val_def)
  then have p: "ParseDuration ''5'' = None" by (simp add: ParseDuration_def)
  show ?thesis
    using duration_yaml_roundtrip_and_errors [OF d _ p, where yaml_unmarshal = Some and yaml_marshal = "\<lambda>s. s"]
    by simp
qed

end
