(* ===== verification/StateStore.thy ===== *)
theory StateStore
  imports GoTime
begin

text \<open>
  The shared state of the wrapper (\<^verbatim>\<open>State\<close> of pkg/process/health.go): its fields, and one
  definition per method. Every method takes the lock of the struct once (the exception,
  \<^verbatim>\<open>SetHeartBeat\<close>, is noted below), so each definition is one atomic step of the concurrent
  program.
\<close>

section \<open>The state\<close>

text \<open>
  \<^verbatim>\<open>context.CancelFunc\<close> values are identified by the number of the context they cancel.
  The embedded lock, the metrics connection and the preemption channel are left to the
  components that use them.
\<close>

type_synonym ctx_id = nat
type_synonym pid = int

definition floatingPidHistory :: nat where "floatingPidHistory = 10"

record pstate =
  Shutdown :: bool
  Preempted :: bool
  envoyDrain :: bool
  ReadinessFile :: string
  killedMap :: "(proc_name, bool) gmap"
  statusMap :: "(proc_name, bool) gmap"
  pidsMap :: "(proc_name, pid) gmap"
  floatingPid :: "(proc_name, gotime list) gmap"
  heartBeat :: "(proc_name, gotime) gmap"
  cancelRoutineMap :: "(proc_name, ctx_id) gmap"

text \<open>The fields \<^verbatim>\<open>NewState\<close> sets; the goroutines it starts are the loops further down.\<close>

definition NewState :: "string \<Rightarrow> bool \<Rightarrow> pstate" where
  "NewState file drain =
     \<lparr>Shutdown = False, Preempted = False, envoyDrain = drain, ReadinessFile = file,
      killedMap = gempty, statusMap = gempty, pidsMap = gempty, floatingPid = gempty,
      heartBeat = gempty, cancelRoutineMap = gempty\<rparr>"

definition IsShutdown :: "pstate \<Rightarrow> bool" where
  "IsShutdown s = Shutdown s"

definition SetShutdown :: "pstate \<Rightarrow> pstate" where
  "SetShutdown s = s\<lparr>Shutdown := True\<rparr>"

definition SetState :: "proc_name \<Rightarrow> bool \<Rightarrow> pstate \<Rightarrow> pstate" where
  "SetState name st s = s\<lparr>statusMap := gput name st (statusMap s)\<rparr>"

definition RemoveState :: "proc_name \<Rightarrow> pstate \<Rightarrow> pstate" where
  "RemoveState name s = s\<lparr>statusMap := gdel name (statusMap s)\<rparr>"

text \<open>
  \<^verbatim>\<open>SetHeartBeat\<close> reads the previous beat under the read lock, sets the period gauge outside
  any lock, and stores the new beat under the write lock. It returns the period it reported
  (if there was a previous beat) and the new state.
\<close>

definition SetHeartBeat :: "proc_name \<Rightarrow> gotime \<Rightarrow> pstate \<Rightarrow> duration option \<times> pstate" where
  "SetHeartBeat name t s =
     (map_option (\<lambda>t0. time_Sub t t0) (gget (heartBeat s) name),
      s\<lparr>heartBeat := gput name t (heartBeat s)\<rparr>)"

definition GetHeartBeat :: "proc_name \<Rightarrow> pstate \<Rightarrow> gotime" where
  "GetHeartBeat name s = gget_zero zero_time (heartBeat s) name"

definition copy_map :: "('k, 'v) gmap \<Rightarrow> ('k, 'v) gmap" where
  "copy_map m = fold (\<lambda>(k, v). gput k v) m gempty"

definition GetAllHeartBeat :: "pstate \<Rightarrow> (proc_name, gotime) gmap" where
  "GetAllHeartBeat s = copy_map (heartBeat s)"

text \<open>\<^verbatim>\<open>SetPid\<close> records the pid and the start time, and keeps the last ten start times.\<close>

definition SetPid :: "proc_name \<Rightarrow> pid \<Rightarrow> gotime \<Rightarrow> pstate \<Rightarrow> pstate" where
  "SetPid name p now s =
     (let h = gget_zero [] (floatingPid s) name @ [now];
          h' = (if length h > floatingPidHistory then last_n floatingPidHistory h else h)
      in s\<lparr>pidsMap := gput name p (pidsMap s), floatingPid := gput name h' (floatingPid s)\<rparr>)"

definition SetCancelRoutine :: "proc_name \<Rightarrow> ctx_id \<Rightarrow> pstate \<Rightarrow> pstate" where
  "SetCancelRoutine name c s = s\<lparr>cancelRoutineMap := gput name c (cancelRoutineMap s)\<rparr>"

text \<open>The contexts \<^verbatim>\<open>CancelRoutines\<close> cancels (the state itself does not change).\<close>

definition CancelRoutines :: "pstate \<Rightarrow> ctx_id list" where
  "CancelRoutines s = map snd (cancelRoutineMap s)"

text \<open>
  \<^verbatim>\<open>NumOfRestarts\<close> reads the clock again in every iteration: \<open>clock i\<close> is the \<open>i\<close>-th reading.
\<close>

fun restarts_loop :: "(nat \<Rightarrow> gotime) \<Rightarrow> duration \<Rightarrow> nat \<Rightarrow> gotime list \<Rightarrow> nat \<Rightarrow> nat" where
  "restarts_loop clock p i [] r = r"
| "restarts_loop clock p i (point # data) r =
     (if time_Unix (time_Add (clock i) (- p)) < time_Unix point
      then restarts_loop clock p (Suc i) data (Suc r)
      else restarts_loop clock p (Suc i) data r)"

definition NumOfRestarts :: "(nat \<Rightarrow> gotime) \<Rightarrow> duration \<Rightarrow> proc_name \<Rightarrow> pstate \<Rightarrow> nat" where
  "NumOfRestarts clock p name s =
     restarts_loop clock p 0 (gget_zero [] (floatingPid s) name) 0"

text \<open>The lines \<^verbatim>\<open>PrintState\<close> prints: name, pid, ready and terminating for each status entry.\<close>

definition PrintState :: "pstate \<Rightarrow> (proc_name \<times> pid \<times> bool \<times> bool) list \<times> bool" where
  "PrintState s =
     (map (\<lambda>(name, st). (name, gget_zero 0 (pidsMap s) name, st, Shutdown s)) (statusMap s),
      Preempted s)"

definition GetPids :: "pstate \<Rightarrow> pid list" where
  "GetPids s = map snd (pidsMap s)"

definition GetPidsMap :: "pstate \<Rightarrow> (proc_name, pid) gmap" where
  "GetPidsMap s = copy_map (pidsMap s)"

definition GetPid :: "proc_name \<Rightarrow> pstate \<Rightarrow> pid" where
  "GetPid name s = gget_zero 0 (pidsMap s) name"

definition SetKillState :: "proc_name \<Rightarrow> bool \<Rightarrow> pstate \<Rightarrow> pstate" where
  "SetKillState name b s = s\<lparr>killedMap := gput name b (killedMap s)\<rparr>"

definition IsKilled :: "proc_name \<Rightarrow> pstate \<Rightarrow> bool" where
  "IsKilled name s = gget_zero False (killedMap s) name"

definition ProcessState :: "pstate \<Rightarrow> (proc_name, bool) gmap" where
  "ProcessState s = copy_map (statusMap s)"

definition SetPreempted :: "pstate \<Rightarrow> pstate" where
  "SetPreempted s = s\<lparr>Preempted := True\<rparr>"

definition IsPreempted :: "pstate \<Rightarrow> bool" where
  "IsPreempted s = Preempted s"

text \<open>The loop of \<^verbatim>\<open>Readiness\<close> and \<^verbatim>\<open>Liveness\<close> over the status entries.\<close>

fun all_ready :: "(proc_name \<times> bool) list \<Rightarrow> bool" where
  "all_ready [] = True"
| "all_ready ((name, state) # rest) = (if \<not> state then False else all_ready rest)"

definition Readiness :: "pstate \<Rightarrow> bool" where
  "Readiness s = (if IsPreempted s then False else all_ready (ProcessState s))"

definition Liveness :: "pstate \<Rightarrow> bool" where
  "Liveness s = all_ready (ProcessState s)"


text \<open>\<^verbatim>\<open>GetReadyPromTargets\<close>: the targets whose name reads as ready (an absent name does not).\<close>

record prom_target =
  targetName :: proc_name
  targetUrl :: string
  ExtraLabels :: "string list"

definition GetReadyPromTargets :: "prom_target list \<Rightarrow> pstate \<Rightarrow> prom_target list" where
  "GetReadyPromTargets targets s =
     (let ps = ProcessState s in filter (\<lambda>t. gget_zero False ps (targetName t)) targets)"

section \<open>Well-formed states\<close>

definition state_wf :: "pstate \<Rightarrow> bool" where
  "state_wf s \<longleftrightarrow>
     gwf (killedMap s) \<and> gwf (statusMap s) \<and> gwf (pidsMap s) \<and> gwf (floatingPid s) \<and>
     gwf (heartBeat s) \<and> gwf (cancelRoutineMap s) \<and>
     (\<forall>n. length (gget_zero [] (floatingPid s) n) \<le> floatingPidHistory)"

lemmas state_op_defs =
  SetShutdown_def SetState_def RemoveState_def SetHeartBeat_def SetPid_def
  SetCancelRoutine_def SetKillState_def SetPreempted_def

lemmas state_read_defs =
  IsShutdown_def IsKilled_def IsPreempted_def GetPid_def GetHeartBeat_def

lemma copy_map_id [simp]: "gwf m \<Longrightarrow> copy_map m = m"
proof (induction m rule: rev_induct)
  case Nil
  then show ?case by (simp add: copy_map_def gempty_def)
next
  case (snoc x xs)
  obtain k v where x: "x = (k, v)" by (cases x)
  have "gput k v xs = xs @ [(k, v)]" if "k \<notin> fst ` set xs"
    using that by (induction xs) (auto simp: gput_def)
  with snoc x show ?case
    by (simp add: copy_map_def gwf_def)
qed

lemma ProcessState_wf [simp]: "state_wf s \<Longrightarrow> ProcessState s = statusMap s"
  by (simp add: ProcessState_def state_wf_def)

lemma GetPidsMap_wf [simp]: "state_wf s \<Longrightarrow> GetPidsMap s = pidsMap s"
  by (simp add: GetPidsMap_def state_wf_def)

lemma GetAllHeartBeat_wf [simp]: "state_wf s \<Longrightarrow> GetAllHeartBeat s = heartBeat s"
  by (simp add: GetAllHeartBeat_def state_wf_def)

lemma state_wf_New [simp]: "state_wf (NewState f d)"
  by (simp add: state_wf_def NewState_def gmap_simps)

text \<open>The mutating methods, as data, so that a history of the state is a list of them.\<close>

datatype state_op =
    OpShutdown
  | OpPreempted
  | OpState proc_name bool
  | OpRemove proc_name
  | OpBeat proc_name gotime
  | OpPid proc_name pid gotime
  | OpCancelFunc proc_name ctx_id
  | OpKill proc_name bool

fun apply_op :: "state_op \<Rightarrow> pstate \<Rightarrow> pstate" where
  "apply_op OpShutdown s = SetShutdown s"
| "apply_op OpPreempted s = SetPreempted s"
| "apply_op (OpState n b) s = SetState n b s"
| "apply_op (OpRemove n) s = RemoveState n s"
| "apply_op (OpBeat n t) s = snd (SetHeartBeat n t s)"
| "apply_op (OpPid n p t) s = SetPid n p t s"
| "apply_op (OpCancelFunc n c) s = SetCancelRoutine n c s"
| "apply_op (OpKill n b) s = SetKillState n b s"

definition run_ops :: "state_op list \<Rightarrow> pstate \<Rightarrow> pstate" where
  "run_ops ops s = fold apply_op ops s"

lemma run_ops_simps [simp]:
  "run_ops [] s = s"
  "run_ops (op # ops) s = run_ops ops (apply_op op s)"
  "run_ops (ops @ ops') s = run_ops ops' (run_ops ops s)"
  by (simp_all add: run_ops_def)

lemma state_wf_apply_op: "state_wf s \<Longrightarrow> state_wf (apply_op op s)"
  by (cases op)
    (auto simp: state_wf_def state_op_defs gmap_simps Let_def floatingPidHistory_def)

lemma state_wf_run_ops: "state_wf s \<Longrightarrow> state_wf (run_ops ops s)"
  by (induction ops arbitrary: s) (simp_all add: run_ops_def state_wf_apply_op)

lemma SetState_idem [simp]: "SetState n b (SetState n b s) = SetState n b s"
  by (simp add: SetState_def gput_def)

lemma SetState_overwrite [simp]: "SetState n b (SetState n b' s) = SetState n b s"
  by (simp add: SetState_def gput_def)

section \<open>Refinement of an abstract table\<close>

text \<open>
  What the state promises to its clients: plain functions from process names, and the
  complete list of start times of every process. The concrete state keeps only the last
  \<open>floatingPidHistory\<close> of them.
\<close>

record astate =
  aShutdown :: bool
  aPreempted :: bool
  aStatus :: "proc_name \<Rightarrow> bool option"
  aKilled :: "proc_name \<Rightarrow> bool"
  aPid :: "proc_name \<Rightarrow> pid"
  aStarts :: "proc_name \<Rightarrow> gotime list"
  aBeat :: "proc_name \<Rightarrow> gotime option"
  aCancel :: "proc_name \<Rightarrow> ctx_id option"

fun spec_op :: "state_op \<Rightarrow> astate \<Rightarrow> astate" where
  "spec_op OpShutdown a = a\<lparr>aShutdown := True\<rparr>"
| "spec_op OpPreempted a = a\<lparr>aPreempted := True\<rparr>"
| "spec_op (OpState n b) a = a\<lparr>aStatus := (aStatus a)(n := Some b)\<rparr>"
| "spec_op (OpRemove n) a = a\<lparr>aStatus := (aStatus a)(n := None)\<rparr>"
| "spec_op (OpBeat n t) a = a\<lparr>aBeat := (aBeat a)(n := Some t)\<rparr>"
| "spec_op (OpPid n p t) a =
     a\<lparr>aPid := (aPid a)(n := p), aStarts := (aStarts a)(n := aStarts a n @ [t])\<rparr>"
| "spec_op (OpCancelFunc n c) a = a\<lparr>aCancel := (aCancel a)(n := Some c)\<rparr>"
| "spec_op (OpKill n b) a = a\<lparr>aKilled := (aKilled a)(n := b)\<rparr>"

definition state_sim :: "pstate \<Rightarrow> astate \<Rightarrow> bool" where
  "state_sim s a \<longleftrightarrow>
     Shutdown s = aShutdown a \<and> Preempted s = aPreempted a \<and>
     (\<forall>n. gget (statusMap s) n = aStatus a n) \<and>
     (\<forall>n. IsKilled n s = aKilled a n) \<and>
     (\<forall>n. GetPid n s = aPid a n) \<and>
     (\<forall>n. gget_zero [] (floatingPid s) n = last_n floatingPidHistory (aStarts a n)) \<and>
     (\<forall>n. gget (heartBeat s) n = aBeat a n) \<and>
     (\<forall>n. gget (cancelRoutineMap s) n = aCancel a n)"

definition init_astate :: astate where
  "init_astate =
     \<lparr>aShutdown = False, aPreempted = False, aStatus = (\<lambda>_. None), aKilled = (\<lambda>_. False),
      aPid = (\<lambda>_. 0), aStarts = (\<lambda>_. []), aBeat = (\<lambda>_. None), aCancel = (\<lambda>_. None)\<rparr>"

lemma state_sim_init: "state_sim (NewState f d) init_astate"
  by (simp add: state_sim_def NewState_def init_astate_def IsKilled_def GetPid_def gmap_simps)

text \<open>Truncating the history to its last ten entries after each start loses nothing else.\<close>

lemma SetPid_history:
  "gget_zero [] (floatingPid (SetPid n p t s)) n' =
     (if n' = n then last_n floatingPidHistory (gget_zero [] (floatingPid s) n @ [t])
      else gget_zero [] (floatingPid s) n')"
  by (simp add: SetPid_def Let_def gmap_simps)

lemma state_sim_step: "state_sim s a \<Longrightarrow> state_sim (apply_op op s) (spec_op op a)"
proof (cases op)
  case (OpPid n p t)
  moreover assume "state_sim s a"
  ultimately show ?thesis
    by (auto simp: state_sim_def SetPid_history last_n_append_last_n)
      (simp_all add: SetPid_def IsKilled_def GetPid_def Let_def gmap_simps)
qed (auto simp: state_sim_def state_op_defs IsKilled_def GetPid_def gmap_simps)

lemma state_sim_run: "state_sim s a \<Longrightarrow> state_sim (run_ops ops s) (fold spec_op ops a)"
  by (induction ops arbitrary: s a) (simp_all add: run_ops_def state_sim_step)

text \<open>C7: the shared state implements its specification. After any sequence of the mutating methods,
  from the state the wrapper starts with, every read answers as a plain table updated by the same
  calls would: shutdown and preemption are flags that stay set, each process has its own status,
  kill flag, pid, last heart beat and cancel function, and its start times are exactly the last ten
  of all its starts. All maps keep unique keys.\<close>

theorem state_refines_table:
  "state_sim (run_ops ops (NewState file drain)) (fold spec_op ops init_astate) \<and>
   state_wf (run_ops ops (NewState file drain))"
  using state_sim_run [OF state_sim_init] state_wf_run_ops [OF state_wf_New] by blast

section \<open>Readiness and liveness\<close>

lemma all_ready_iff: "all_ready xs \<longleftrightarrow> (\<forall>(n, b) \<in> set xs. b)"
  by (induction xs rule: all_ready.induct) auto

lemma Liveness_iff:
  "state_wf s \<Longrightarrow> Liveness s \<longleftrightarrow> (\<forall>n. gget (statusMap s) n \<noteq> Some False)"
  using gm.all_entries [of "statusMap s" "\<lambda>_ b. b"]
  by (auto simp: Liveness_def all_ready_iff state_wf_def)

lemma Readiness_Liveness: "Readiness s \<longleftrightarrow> \<not> Preempted s \<and> Liveness s"
  by (simp add: Readiness_def Liveness_def IsPreempted_def)

section \<open>The restart history\<close>

lemma restarts_loop_const:
  "restarts_loop (\<lambda>_. now) p i data r =
     r + count_if (\<lambda>point. time_Unix (time_Add now (- p)) < time_Unix point) data"
  by (induction data arbitrary: i r) auto

lemma restarts_loop_le: "restarts_loop clock p i data r \<le> r + length data"
proof (induction data arbitrary: i r)
  case (Cons x data)
  show ?case
    using Cons [of "Suc i" r] Cons [of "Suc i" "Suc r"] by simp
qed simp

lemma NumOfRestarts_le_history:
  "state_wf s \<Longrightarrow> NumOfRestarts clock p n s \<le> floatingPidHistory"
  using restarts_loop_le [of clock p 0 "gget_zero [] (floatingPid s) n" 0]
  by (auto simp: NumOfRestarts_def state_wf_def intro: order_trans)

end
