(* ===== verification/Metrics.thy ===== *)
theory Metrics
  imports GoText
begin

text \<open>
  The event metrics of pkg/metrics/metrics.go: the labels of an event, the event messages a
  metrics server is sent, and the loading of the extra labels. The Prometheus vectors the
  file registers are counters of a library and are not modelled beyond the calls that use
  them.
\<close>

type_synonym labels = "(string, string) gmap"

record metric =
  mName :: string
  mLabels :: labels
  mOperation :: string
  mHelp :: string
  mValue :: rat

text \<open>
  A \<^verbatim>\<open>*Server\<close>: \<open>None\<close> is the nil pointer; \<open>Some wire\<close> a connection and the metrics written
  to it so far. Marshalling a metric cannot fail, and a failed write is only logged.
\<close>

type_synonym server = "metric list option"

text \<open>The package variables and the environment the labels are built from.\<close>

record label_sources =
  lsEnviron :: environ
  extraJSONLabels :: "labels option"
  extraFileLabels :: "labels option"
  debugLevel :: bool

text \<open>No sources and no debug output, as the wrapper starts without configuration.\<close>

definition quiet_labels :: label_sources where
  "quiet_labels = \<lparr>lsEnviron = (\<lambda>_. None), extraJSONLabels = None, extraFileLabels = None, debugLevel = False\<rparr>"

definition put_all :: "(string \<times> string) list \<Rightarrow> labels \<Rightarrow> labels" where
  "put_all xs m = fold (\<lambda>(k, v). gput k v) xs m"

text \<open>Ranging over a nil map does nothing.\<close>

definition range_of :: "labels option \<Rightarrow> (string \<times> string) list" where
  "range_of m = (case m of None \<Rightarrow> [] | Some xs \<Rightarrow> xs)"

definition MergeLabels :: "label_sources \<Rightarrow> labels \<Rightarrow> labels" where
  "MergeLabels ls merge =
     (let labels = put_all
        [(''pod'', Getenv (lsEnviron ls) ''HOSTNAME''),
         (''namespace'', Getenv (lsEnviron ls) ''POD_NAMESPACE''),
         (''node'', Getenv (lsEnviron ls) ''NODE_NAME'')] gempty;
        labels = put_all (range_of (extraJSONLabels ls)) labels;
        labels = put_all (range_of (extraFileLabels ls)) labels
      in put_all merge labels)"

definition Push :: "metric \<Rightarrow> metric list \<Rightarrow> metric list" where
  "Push m wire = wire @ [m]"

text \<open>\<open>event_metric\<close> is the value each method builds; \<^verbatim>\<open>event_type\<close> is set after the merge.\<close>

definition event_metric :: "label_sources \<Rightarrow> string \<Rightarrow> string \<Rightarrow> rat \<Rightarrow> labels \<Rightarrow> metric" where
  "event_metric ls name op v labels =
     \<lparr>mName = name, mLabels = gput ''event_type'' name (MergeLabels ls labels),
      mOperation = op, mHelp = [], mValue = v\<rparr>"

definition PushInitPreemptedMetric :: "label_sources \<Rightarrow> server \<Rightarrow> server" where
  "PushInitPreemptedMetric ls s =
     (case s of None \<Rightarrow> None
      | Some wire \<Rightarrow> Some (Push (event_metric ls ''preempted'' ''inc'' 0 []) wire))"

text \<open>
  The event, the counter increment, and then one \<^verbatim>\<open>preemption_count\<close> event a second for a
  minute (sent by a goroutine; the labels map is shared, and its event type is overwritten
  after the first two messages are on the wire).
\<close>

definition PushPreemptedEvent :: "label_sources \<Rightarrow> server \<Rightarrow> server" where
  "PushPreemptedEvent ls s =
     (case s of None \<Rightarrow> None
      | Some wire \<Rightarrow>
          (let m = event_metric ls ''preempted'' ''event'' 1 [];
               wire = Push m wire;
               m = m\<lparr>mOperation := ''inc''\<rparr>;
               wire = Push m wire;
               m = m\<lparr>mName := ''preemption_count'',
                     mLabels := gput ''event_type'' ''preemption_count'' (mLabels m),
                     mOperation := ''event''\<rparr>
           in Some (fold (\<lambda>_ wire. Push m wire) [0..<60] wire)))"

definition PushTerminationEvent :: "label_sources \<Rightarrow> labels \<Rightarrow> server \<Rightarrow> server" where
  "PushTerminationEvent ls labels s =
     (case s of None \<Rightarrow> None
      | Some wire \<Rightarrow> Some (Push (event_metric ls ''termination'' ''event'' 1 labels) wire))"

definition PushHealthEvent :: "label_sources \<Rightarrow> labels \<Rightarrow> server \<Rightarrow> server" where
  "PushHealthEvent ls labels s =
     (let st = gget labels ''status'' in
      if (st \<noteq> None \<and> (st = Some ''true'' \<and> \<not> debugLevel ls)) \<or> s = None then s
      else map_option (Push (event_metric ls ''readiness'' ''event'' 1 labels)) s)"

definition PushCommandRestartEvent :: "label_sources \<Rightarrow> labels \<Rightarrow> server \<Rightarrow> server" where
  "PushCommandRestartEvent ls labels s =
     (case s of None \<Rightarrow> None
      | Some wire \<Rightarrow> Some (Push (event_metric ls ''restart'' ''event'' 1 labels) wire))"

section \<open>Extra labels\<close>

text \<open>
  \<open>decode\<close> is \<^verbatim>\<open>json.Unmarshal\<close> into a string map: the entries it stored, and whether it
  succeeded (a failure is logged only). The result is the new package variable.
\<close>

definition GetExtraJSONLabels ::
  "(string \<Rightarrow> labels \<times> bool) \<Rightarrow> label_sources \<Rightarrow> labels option" where
  "GetExtraJSONLabels decode ls =
     (case extraJSONLabels ls of
        Some l \<Rightarrow> Some l
      | None \<Rightarrow>
          (case lsEnviron ls ''METRICS_JSON_EXTRA_LABELS'' of
             None \<Rightarrow> None
           | Some txt \<Rightarrow> Some (fst (decode txt))))"

text \<open>One line of the labels file.\<close>

definition file_label_line :: "string list \<Rightarrow> string \<Rightarrow> labels \<Rightarrow> labels" where
  "file_label_line exclude line m =
     (case Index line (CHR ''='') of
        None \<Rightarrow> m
      | Some equal \<Rightarrow>
          (let key = TrimSpace (take equal line) in
           if length key > 0 then
             (let value = (if length line > equal then TrimSpace (drop (equal + 1) line) else [])
              in if \<not> sliceContains exclude key
                 then gput (ReplaceAll key (CHR ''-'') ''_'') (ReplaceAll value (CHR 0x22) []) m
                 else m)
           else m))"

text \<open>
  \<^verbatim>\<open>reader.ReadString('\n')\<close>: the line with its newline, or what is left and an error. A file
  is its content and whether reading past it reports \<^verbatim>\<open>io.EOF\<close>: a directory, or the nil
  \<^verbatim>\<open>*os.File\<close> a failed \<^verbatim>\<open>os.Open\<close> returns, reports another error, every time.
\<close>

definition ReadString :: "string \<Rightarrow> string \<times> string \<times> bool" where
  "ReadString s =
     (case Index s (CHR 0x0A) of
        None \<Rightarrow> (s, [], True)
      | Some i \<Rightarrow> (take (Suc i) s, drop (Suc i) s, False))"

fun file_labels_loop :: "nat \<Rightarrow> string list \<Rightarrow> bool \<Rightarrow> string \<Rightarrow> labels \<Rightarrow> labels option" where
  "file_labels_loop 0 exclude eof s m = None"
| "file_labels_loop (Suc fuel) exclude eof s m =
     (let (line, rest, err) = ReadString s;
          m' = file_label_line exclude line m
      in if err \<and> eof then Some m' else file_labels_loop fuel exclude eof rest m')"

text \<open>
  \<open>open_file\<close> gives the content of a path and how reading it ends, or \<open>None\<close> when it cannot
  be opened. The outer \<open>None\<close> is a loop that has not ended within the fuel.
\<close>

definition GetExtraFileLabels ::
  "nat \<Rightarrow> (string \<Rightarrow> (string \<times> bool) option) \<Rightarrow> label_sources \<Rightarrow> labels option option" where
  "GetExtraFileLabels fuel open_file ls =
     (case extraFileLabels ls of
        Some l \<Rightarrow> Some (Some l)
      | None \<Rightarrow>
          (case lsEnviron ls ''METRICS_EXTRA_LABELS_FILE_PATH'' of
             None \<Rightarrow> Some None
           | Some path \<Rightarrow>
               (let exclude = (case lsEnviron ls ''METRICS_EXTRA_LABELS_FILE_EXCLUDE'' of
                                 None \<Rightarrow> [] | Some l \<Rightarrow> Split l (CHR '',''));
                    (content, eof) = (case open_file path of None \<Rightarrow> ([], False) | Some f \<Rightarrow> f)
                in map_option Some (file_labels_loop fuel exclude eof content gempty))))"

text \<open>
  \<^verbatim>\<open>NewMetricsServer\<close>: nil without an address, the existing server when there is one, nil when
  the socket cannot be dialled; otherwise a new server, once the extra labels are loaded
  (\<open>None\<close>: still loading). The result is the server and the new label sources.
\<close>

definition NewMetricsServer ::
  "nat \<Rightarrow> (string \<Rightarrow> bool) \<Rightarrow> (string \<Rightarrow> labels \<times> bool) \<Rightarrow> (string \<Rightarrow> (string \<times> bool) option) \<Rightarrow>
   string \<Rightarrow> server \<Rightarrow> label_sources \<Rightarrow> (server \<times> label_sources) option" where
  "NewMetricsServer fuel dial decode open_file address singleton ls =
     (if address = [] then Some (None, ls)
      else if singleton \<noteq> None then Some (singleton, ls)
      else if \<not> dial address then Some (None, ls)
      else (let ls1 = ls\<lparr>extraJSONLabels := GetExtraJSONLabels decode ls\<rparr>
            in case GetExtraFileLabels fuel open_file ls1 of
                 None \<Rightarrow> None
               | Some fl \<Rightarrow> Some (Some [], ls1\<lparr>extraFileLabels := fl\<rparr>)))"

section \<open>Properties\<close>

lemma gget_put_all: "gget (put_all xs m) = gget m ++ map_of (rev xs)"
  by (rule ext) (simp add: put_all_def gm.get_fold_put map_add_def)

lemma gwf_put_all: "gwf m \<Longrightarrow> gwf (put_all xs m)"
  by (simp add: put_all_def gm.wf_fold_put)

lemma MergeLabels_wf: "gwf (MergeLabels ls merge)"
  by (simp add: MergeLabels_def Let_def gwf_put_all gm.wf_empty)

definition pod_labels :: "label_sources \<Rightarrow> string \<Rightarrow> string option" where
  "pod_labels ls =
     [''pod'' \<mapsto> Getenv (lsEnviron ls) ''HOSTNAME'',
      ''namespace'' \<mapsto> Getenv (lsEnviron ls) ''POD_NAMESPACE'',
      ''node'' \<mapsto> Getenv (lsEnviron ls) ''NODE_NAME'']"

lemma gget_MergeLabels:
  "gget (MergeLabels ls merge) =
     pod_labels ls ++ map_of (rev (range_of (extraJSONLabels ls)))
       ++ map_of (rev (range_of (extraFileLabels ls))) ++ map_of (rev merge)"
proof -
  have "gget (put_all
        [(''pod'', Getenv (lsEnviron ls) ''HOSTNAME''),
         (''namespace'', Getenv (lsEnviron ls) ''POD_NAMESPACE''),
         (''node'', Getenv (lsEnviron ls) ''NODE_NAME'')] gempty) = pod_labels ls"
    by (rule ext) (simp add: put_all_def pod_labels_def gmap_simps)
  then show ?thesis by (simp add: MergeLabels_def Let_def gget_put_all)
qed

text \<open>Labels of an event. The label \<^verbatim>\<open>event_type\<close> of every event is the name of its metric,
  whatever the caller and the extra labels say; any other label comes from the caller, else from
  the labels file, else from the JSON labels, else from the pod's environment.\<close>

theorem event_labels:
  assumes "gwf labels" "gwf (range_of (extraFileLabels ls))" "gwf (range_of (extraJSONLabels ls))"
  shows "gget (mLabels (event_metric ls name op v labels)) k =
    (if k = ''event_type'' then Some (mName (event_metric ls name op v labels))
     else (case gget labels k of Some x \<Rightarrow> Some x | None \<Rightarrow>
       (case gget (range_of (extraFileLabels ls)) k of Some x \<Rightarrow> Some x | None \<Rightarrow>
         (case gget (range_of (extraJSONLabels ls)) k of Some x \<Rightarrow> Some x | None \<Rightarrow> pod_labels ls k))))"
  using assms
  by (simp add: event_metric_def gm.get_put gget_MergeLabels gwf_map_of_rev map_add_def)

theorem event_labels_witness:
  "let ls = \<lparr>lsEnviron = [''NODE_NAME'' \<mapsto> ''n1''], extraJSONLabels = None,
             extraFileLabels = Some [(''app'', ''file''), (''event_type'', ''x'')], debugLevel = False\<rparr>;
       m = event_metric ls ''restart'' ''event'' 1 [(''app'', ''sidecar'')]
   in gget (mLabels m) ''event_type'' = Some ''restart'' \<and> gget (mLabels m) ''app'' = Some ''sidecar'' \<and>
      gget (mLabels m) ''node'' = Some ''n1''"
proof -
  let ?ls = "\<lparr>lsEnviron = [''NODE_NAME'' \<mapsto> ''n1''], extraJSONLabels = None,
             extraFileLabels = Some [(''app'', ''file''), (''event_type'', ''x'')], debugLevel = False\<rparr>"
  have h: "gwf [(''app'', ''sidecar'')]" "gwf (range_of (extraFileLabels ?ls))"
    "gwf (range_of (extraJSONLabels ?ls))"
    by (simp_all add: gwf_def range_of_def)
  show ?thesis
    using event_labels [OF h, of "''restart''" "''event''" 1]
    by (simp add: Let_def gget_def range_of_def event_metric_def pod_labels_def)
qed

text \<open>Health events. A probe result is sent exactly when there is a server and the result is
  not a success below the debug level.\<close>

theorem PushHealthEvent_sent:
  "PushHealthEvent ls labels server =
     (case server of None \<Rightarrow> None
      | Some wire \<Rightarrow>
          if gget labels ''status'' = Some ''true'' \<and> \<not> debugLevel ls then Some wire
          else Some (wire @ [event_metric ls ''readiness'' ''event'' 1 labels]))"
  by (auto simp: PushHealthEvent_def Let_def Push_def split: option.split)

text \<open>A preemption sends one event, one counter increment and sixty \<^verbatim>\<open>preemption_count\<close>
  events, in this order, each labelled with its own event type.\<close>

theorem PushPreemptedEvent_messages:
  "\<exists>ms. PushPreemptedEvent ls (Some wire) = Some (wire @ ms) \<and>
        map (\<lambda>m. (mName m, mOperation m)) ms =
          [(''preempted'', ''event''), (''preempted'', ''inc'')] @
          replicate 60 (''preemption_count'', ''event'') \<and>
        list_all (\<lambda>m. gget (mLabels m) ''event_type'' = Some (mName m) \<and> mValue m = 1) ms"
proof -
  have push: "fold (\<lambda>_ wire. Push m wire) xs l = l @ replicate (length xs) m" for m l and xs :: "nat list"
    by (induction xs arbitrary: l) (simp_all add: Push_def replicate_app_Cons_same)
  let ?m = "event_metric ls ''preempted'' ''event'' 1 []"
  let ?m2 = "?m\<lparr>mOperation := ''inc''\<rparr>"
  let ?m3 = "?m2\<lparr>mName := ''preemption_count'',
       mLabels := gput ''event_type'' ''preemption_count'' (mLabels ?m2), mOperation := ''event''\<rparr>"
  have "PushPreemptedEvent ls (Some wire) = Some (wire @ [?m, ?m2] @ replicate 60 ?m3)"
    by (simp add: PushPreemptedEvent_def Let_def push) (simp add: Push_def)
  then show ?thesis
    by (intro exI [of _ "[?m, ?m2] @ replicate 60 ?m3"])
      (auto simp: event_metric_def gmap_simps map_replicate list_all_iff)
qed

subsection \<open>The labels file\<close>

lemma ReadString_rest:
  "ReadString s = (line, rest, err) \<Longrightarrow> (err \<longleftrightarrow> CHR 0x0A \<notin> set s) \<and> (\<not> err \<longrightarrow> length rest < length s)"
proof -
  assume r: "ReadString s = (line, rest, err)"
  show ?thesis
  proof (cases "Index s (CHR 0x0A)")
    case None
    then have "CHR 0x0A \<notin> set s" by (simp add: Index_None_iff)
    then show ?thesis using r None by (simp add: ReadString_def)
  next
    case (Some i)
    then have "i < length s" "CHR 0x0A \<in> set s"
      using Index_Some_iff [of s "CHR 0x0A" i] nth_mem by metis+
    then show ?thesis using r Some by (auto simp: ReadString_def)
  qed
qed

lemma file_labels_loop_no_eof: "file_labels_loop fuel exclude False s m = None"
  by (induction fuel arbitrary: s m) (simp_all add: Let_def split: prod.splits)

lemma file_labels_loop_Some: "file_labels_loop fuel exclude eof s m = Some m' \<Longrightarrow> eof"
  using file_labels_loop_no_eof by (cases eof) auto

lemma file_labels_loop_eof:
  "length s < fuel \<Longrightarrow> \<exists>m'. file_labels_loop fuel exclude True s m = Some m'"
proof (induction fuel arbitrary: s m)
  case (Suc fuel)
  obtain line rest err where r: "ReadString s = (line, rest, err)" by (metis prod_cases3)
  show ?case
  proof (cases err)
    case True
    then show ?thesis using r by simp
  next
    case False
    then have "length rest < fuel" using ReadString_rest [OF r] Suc.prems by auto
    then show ?thesis using Suc.IH r False by simp
  qed
qed simp

text \<open>C32: termination of the labels file loader. When a labels file is configured and its labels
  are not loaded yet, the loader returns exactly when the file can be opened and reading past its
  content reports end of file; otherwise (a path that does not exist, a directory) the loop runs
  forever, and with it \<^verbatim>\<open>NewMetricsServer\<close> and the start of the wrapper.\<close>

theorem file_labels_terminate_iff:
  assumes "extraFileLabels ls = None"
    and "lsEnviron ls ''METRICS_EXTRA_LABELS_FILE_PATH'' = Some path"
  shows "(\<exists>fuel r. GetExtraFileLabels fuel open_file ls = Some r) \<longleftrightarrow>
         (\<exists>content. open_file path = Some (content, True))"
proof -
  have eof: "\<exists>fuel m. file_labels_loop fuel exclude True s gempty = Some m" for exclude s
    using file_labels_loop_eof [of s "Suc (length s)"] by blast
  show ?thesis
    using assms eof
    by (cases "open_file path")
      (auto simp: GetExtraFileLabels_def Let_def file_labels_loop_no_eof dest: file_labels_loop_Some
        split: prod.splits)
qed

theorem file_labels_terminate_iff_witness:
  "let ls = \<lparr>lsEnviron = [''METRICS_EXTRA_LABELS_FILE_PATH'' \<mapsto> ''/labels''],
             extraJSONLabels = None, extraFileLabels = None, debugLevel = False\<rparr>
   in (\<exists>fuel r. GetExtraFileLabels fuel (\<lambda>_. Some (''a=b'', True)) ls = Some r) \<and>
      \<not> (\<exists>fuel r. GetExtraFileLabels fuel (\<lambda>_. None) ls = Some r)"
proof -
  let ?ls = "\<lparr>lsEnviron = [''METRICS_EXTRA_LABELS_FILE_PATH'' \<mapsto> ''/labels''],
             extraJSONLabels = None, extraFileLabels = None, debugLevel = False\<rparr>"
  have h: "extraFileLabels ?ls = None" "lsEnviron ?ls ''METRICS_EXTRA_LABELS_FILE_PATH'' = Some ''/labels''"
    by simp_all
  show ?thesis
    using file_labels_terminate_iff [OF h, of "\<lambda>_. Some (''a=b'', True)"]
      file_labels_terminate_iff [OF h, of "\<lambda>_. None"] by (simp add: Let_def)
qed

text \<open>Cleaned labels. Every label the file loader stores has a name without dashes and a value
  without double quotes, and no line for an excluded name changes the labels.\<close>

theorem file_label_line_clean:
  assumes "CHR ''='' \<notin> set key"
  shows "if TrimSpace key \<in> set exclude then file_label_line exclude (key @ CHR ''='' # value) m = m
         else (\<forall>k v. gget (file_label_line exclude (key @ CHR ''='' # value) m) k = Some v \<longrightarrow>
                 gget m k = Some v \<or> CHR ''-'' \<notin> set k \<and> CHR 0x22 \<notin> set v)"
  using assms
  by (auto simp: file_label_line_def Let_def gmap_simps Index_append
      dest: ReplaceAll_absent [THEN notE, rotated] split: option.splits if_splits)

theorem file_label_line_clean_witness:
  "gget (file_label_line [''x''] ''a-b=c'' gempty) ''a_b'' = Some ''c'' \<and>
   CHR ''-'' \<notin> set ''a_b'' \<and> file_label_line [''x''] ''x=c'' gempty = gempty"
proof -
  have t: "TrimSpace ''a-b'' = ''a-b''" "TrimSpace ''c'' = ''c''" "TrimSpace ''x'' = ''x''"
    by (simp_all add: TrimSpace_def TrimLeft_def TrimRight_def trim_with.simps space_at_def
        ascii_space_def wide_spaces_def)
  have g: "gget (file_label_line [''x''] ''a-b=c'' gempty) ''a_b'' = Some ''c''"
    by (simp add: file_label_line_def t ReplaceAll_def gmap_simps)
  then show ?thesis
    using file_label_line_clean [of "''a-b''" "[''x'']" "''c''" gempty] g
      file_label_line_clean [of "''x''" "[''x'']" "''c''" gempty]
    by (simp add: gmap_simps t)
qed

end
