(* ===== verification/Command.thy ===== *)
theory Command
  imports StateStore GoDuration Metrics
begin

text \<open>
  The configured process (\<^verbatim>\<open>Command\<close> of pkg/process/process.go). Probes and hooks contain
  commands of their own, of which only the fields of \<open>command_base\<close> are ever read, so the
  record is split there: \<open>Probes\<close> and \<open>Hook\<close> use \<open>command_base\<close>, and \<open>Schedule\<close> extends it
  to the complete command.
\<close>

definition RestartPolicyAlways :: string where "RestartPolicyAlways = ''always''"
definition RestartPolicyNewer :: string where "RestartPolicyNewer = ''never''"

definition ProbePeriodSeconds :: int where "ProbePeriodSeconds = 5"
definition ProbeDelaySeconds :: int where "ProbeDelaySeconds = 5"
definition ProbeFailureThreshold :: int where "ProbeFailureThreshold = 3"
definition DefaultSharedLockLeaseEndpoint :: string where
  "DefaultSharedLockLeaseEndpoint = ''/lease''"
definition DefaultSharedLockKeepAliveEndpoint :: string where
  "DefaultSharedLockKeepAliveEndpoint = ''/keepalive''"

text \<open>The process attributes are an opaque value handed to the operating system.\<close>

record command_base =
  cName :: proc_name
  cEntrypoint :: string
  cArgs :: "string list"
  cEnvs :: "(string, string) gmap"
  cEnvsFile :: string
  cRestartPolicy :: string
  cLogFormat :: string
  cDir :: string
  cPromTarget :: string
  cSysProcAttr :: "string option"
  cReplicas :: int
  cMemoryLimitMB :: rat

text \<open>The zero value of the struct.\<close>

definition zero_command :: command_base where
  "zero_command =
     \<lparr>cName = [], cEntrypoint = [], cArgs = [], cEnvs = gempty, cEnvsFile = [], cRestartPolicy = [],
      cLogFormat = [], cDir = [], cPromTarget = [], cSysProcAttr = None, cReplicas = 0,
      cMemoryLimitMB = 0\<rparr>"

text \<open>\<^verbatim>\<open>String\<close>: the entrypoint and the arguments, separated by spaces.\<close>

fun cmd_String_loop :: "string \<Rightarrow> string list \<Rightarrow> string" where
  "cmd_String_loop cmd [] = cmd"
| "cmd_String_loop cmd (arg # args) = cmd_String_loop (cmd @ '' '' @ arg) args"

definition cmd_String :: "('a) command_base_scheme \<Rightarrow> string" where
  "cmd_String c = cmd_String_loop (cEntrypoint c) (cArgs c)"

lemma cmd_String_Join: "cmd_String c = Join (cEntrypoint c # cArgs c) '' ''"
proof -
  have "cmd_String_loop cmd args = Join (cmd # args) '' ''" for cmd args
  proof (induction args arbitrary: cmd)
    case (Cons a args)
    have "Join ((cmd @ '' '' @ a) # args) '' '' = cmd @ '' '' @ Join (a # args) '' ''"
      by (cases args) simp_all
    then show ?case by (simp add: Cons.IH)
  qed simp
  then show ?thesis by (simp add: cmd_String_def)
qed

end
