(* ===== verification/Probes.thy ===== *)
theory Probes
  imports Command
begin

text \<open>
  The health probes (pkg/process/probe_*.go) behind the \<^verbatim>\<open>Health\<close> interface of health.go, and
  \<^verbatim>\<open>HealthRun\<close>, which runs one and reports it. What a probe asks of its surroundings (an HTTP
  or TCP peer, a file, a database, a broker, a child process, the clock) is answered by a
  \<open>probe_world\<close>: the answers of one moment.
\<close>

section \<open>The surroundings\<close>

text \<open>What the \<^verbatim>\<open>select\<close> of the exec probe receives first: the ticker or the exit code.\<close>

datatype exec_event = ExecTimeout | ExecExit int

text \<open>
  Database handles and broker connections are numbers. \<open>wSqlQuery\<close> is \<open>None\<close> when the query
  fails, and otherwise the rows, where \<open>None\<close> is a row that cannot be scanned as a string.
  \<open>wAmqpDial\<close> returns a connection (\<open>Inr\<close>), or an error with a connection that may be nil
  (\<open>Inl\<close>).
  \<open>wHttpGet\<close> and \<open>wHttpPost\<close> give the status code, \<open>None\<close> when the request fails.
  \<open>wNilLoggerPanics\<close> says whether logging through a nil entry of the logging library panics.
\<close>

record probe_world =
  wEnviron :: environ
  wHttpGet :: "string \<Rightarrow> int option"
  wHttpPost :: "string \<Rightarrow> string \<Rightarrow> int option"
  wDial :: "string \<Rightarrow> bool"
  wStat :: "string \<Rightarrow> bool"
  wExec :: "string \<Rightarrow> string list \<Rightarrow> string list \<Rightarrow> exec_event"
  wSqlOpen :: "string \<Rightarrow> nat option"
  wSqlQuery :: "nat \<Rightarrow> string \<Rightarrow> string option list option"
  wAmqpDial :: "string \<Rightarrow> nat option + nat"
  wAmqpIsClosed :: "nat \<Rightarrow> bool"
  wAmqpCloseFails :: "nat \<Rightarrow> bool"
  wClock :: "nat \<Rightarrow> gotime"
  wNilLoggerPanics :: bool

text \<open>A probe that panics takes the wrapper with it.\<close>

datatype 'a outcome = Panic | Done 'a

section \<open>HTTP, TCP, file and environment\<close>

record http_probe = httpURL :: string

definition HTTPProbe_Run :: "probe_world \<Rightarrow> http_probe \<Rightarrow> bool" where
  "HTTPProbe_Run w p =
     (case wHttpGet w (httpURL p) of
        None \<Rightarrow> False
      | Some code \<Rightarrow> if code < 299 then True else False)"

definition HTTPProbe_String :: "http_probe \<Rightarrow> string" where
  "HTTPProbe_String p = ''HTTP Get '' @ httpURL p"

record tcp_probe = tcpSocket :: string

definition TCPProbe_Run :: "probe_world \<Rightarrow> tcp_probe \<Rightarrow> bool" where
  "TCPProbe_Run w p = (if \<not> wDial w (tcpSocket p) then False else True)"

definition TCPProbe_String :: "tcp_probe \<Rightarrow> string" where
  "TCPProbe_String p = ''Connect tcp://'' @ tcpSocket p"

record file_probe = filePath :: string

definition FileProbe_Run :: "probe_world \<Rightarrow> file_probe \<Rightarrow> bool" where
  "FileProbe_Run w p = (if \<not> wStat w (filePath p) then False else True)"

definition FileProbe_String :: "file_probe \<Rightarrow> string" where
  "FileProbe_String p = ''Stat file: '' @ filePath p"

record env_probe = envName :: string  envValue :: string

definition EnvProbe_Run :: "probe_world \<Rightarrow> env_probe \<Rightarrow> bool" where
  "EnvProbe_Run w p = (Getenv (wEnviron w) (envName p) = envValue p)"

definition EnvProbe_String :: "env_probe \<Rightarrow> string" where
  "EnvProbe_String p = ''Check env '' @ envName p @ '':'' @ envValue p"

section \<open>Exec\<close>

definition ExecProbeTimeout :: int where "ExecProbeTimeout = 30"

record exec_probe = execCommand :: command_base

definition ExecProbe_Run :: "probe_world \<Rightarrow> exec_probe \<Rightarrow> bool" where
  "ExecProbe_Run w p =
     (let c = execCommand p
      in case wExec w (cEntrypoint c) (cArgs c) (map (\<lambda>(k, v). k @ ''='' @ v) (cEnvs c)) of
           ExecTimeout \<Rightarrow> False
         | ExecExit code \<Rightarrow> if code \<noteq> 0 then False else True)"

definition ExecProbe_String :: "exec_probe \<Rightarrow> string" where
  "ExecProbe_String p = ''Exec '' @ cmd_String (execCommand p)"

section \<open>SQL\<close>

record sql_probe =
  sqlQueries :: "string list"
  sqlContains :: "string list"
  sqlEnvs :: "(string, string) gmap"
  sqlDb :: "nat option"

definition SQLProbe_String :: "sql_probe \<Rightarrow> string" where
  "SQLProbe_String p = ''SQL contains '' @ Join (sqlContains p) '';''"

text \<open>The handle is opened once and kept in the probe.\<close>

definition NewDBConnect :: "probe_world \<Rightarrow> string \<Rightarrow> sql_probe \<Rightarrow> nat option \<times> sql_probe" where
  "NewDBConnect w dsn p =
     (case sqlDb p of
        Some db \<Rightarrow> (Some db, p)
      | None \<Rightarrow> (wSqlOpen w dsn, p\<lparr>sqlDb := wSqlOpen w dsn\<rparr>))"

fun scan_rows :: "string option list \<Rightarrow> string list \<Rightarrow> string list option" where
  "scan_rows [] acc = Some acc"
| "scan_rows (None # rows) acc = None"
| "scan_rows (Some r # rows) acc = scan_rows rows (acc @ [r])"

definition SQLQuery :: "probe_world \<Rightarrow> nat \<Rightarrow> string \<Rightarrow> string list option" where
  "SQLQuery w db query =
     (case wSqlQuery w db query of None \<Rightarrow> None | Some rows \<Rightarrow> scan_rows rows [])"

fun contains_loop :: "string list \<Rightarrow> string list \<Rightarrow> bool" where
  "contains_loop responseList [] = True"
| "contains_loop responseList (e # es) =
     (if \<not> sliceContains responseList e then False else contains_loop responseList es)"

text \<open>A failed query is only logged: the loop goes on with an empty list of responses.\<close>

fun queries_loop :: "probe_world \<Rightarrow> nat \<Rightarrow> string list \<Rightarrow> string list \<Rightarrow> bool" where
  "queries_loop w db contains [] = True"
| "queries_loop w db contains (q # qs) =
     (let responseList = (case SQLQuery w db q of None \<Rightarrow> [] | Some l \<Rightarrow> l)
      in if \<not> contains_loop responseList contains then False else queries_loop w db contains qs)"

definition SQLProbe_Run :: "probe_world \<Rightarrow> sql_probe \<Rightarrow> bool \<times> sql_probe" where
  "SQLProbe_Run w p =
     (case gget (sqlEnvs p) ''MYSQL_DSN'' of
        None \<Rightarrow> (False, p)
      | Some dsn \<Rightarrow>
          if dsn = [] then (False, p)
          else (case NewDBConnect w dsn p of
                  (None, p') \<Rightarrow> (False, p')
                | (Some db, p') \<Rightarrow> (queries_loop w db (sqlContains p) (sqlQueries p), p')))"

section \<open>Floating pid and heart beat\<close>

record floating_probe = fpPeriod :: duration  fpThreshold :: int

definition FloatingPid_Run :: "probe_world \<Rightarrow> pstate \<Rightarrow> proc_name \<Rightarrow> floating_probe \<Rightarrow> bool" where
  "FloatingPid_Run w s name p =
     (let period = (if zero_seconds (fpPeriod p) then Second * 10 else fpPeriod p);
          threshold = (if fpThreshold p = 0 then 1 else fpThreshold p);
          r = NumOfRestarts (wClock w) period name s
      in int r \<le> threshold)"

text \<open>The receiver is a copy: the text shows the configured values, not the defaults.\<close>

definition FloatingPid_String :: "floating_probe \<Rightarrow> string" where
  "FloatingPid_String p =
     ''Floating pid, with period: '' @ Duration_String (fpPeriod p) @ '', threshold: '' @
     show_int (fpThreshold p)"

record beat_probe = hbPeriod :: duration

definition HeartBeat_Run :: "probe_world \<Rightarrow> pstate \<Rightarrow> proc_name \<Rightarrow> beat_probe \<Rightarrow> bool" where
  "HeartBeat_Run w s name h =
     (let t = GetHeartBeat name s
      in if time_Sub (wClock w 0) t > hbPeriod h then False else True)"

definition HeartBeat_String :: "beat_probe \<Rightarrow> string" where
  "HeartBeat_String h = ''HeartBeat: '' @ Duration_String (hbPeriod h)"

section \<open>AMQP\<close>

record amqp_probe =
  amqpEnvs :: "(string, string) gmap"
  amqpReuseConn :: bool
  amqpConnection :: "nat option"

definition AMQPProbeRabbitMqUserEnvName :: string where
  "AMQPProbeRabbitMqUserEnvName = ''AMQP_PROBE_RABBITMQ_USER''"
definition AMQPProbeRabbitMqPassEnvName :: string where
  "AMQPProbeRabbitMqPassEnvName = ''AMQP_PROBE_RABBITMQ_PASS''"
definition AMQPProbeDsnTemplateEnvName :: string where
  "AMQPProbeDsnTemplateEnvName = ''AMQP_PROBE_RABBITMQ_DSN_TEMPLATE''"

text \<open>
  \<^verbatim>\<open>fmt.Sprintf\<close> with string operands and a template whose verbs have no flags or width, as
  the documented templates are: \<open>%v\<close> and \<open>%s\<close> take the next operand, \<open>%%\<close> is a percent sign,
  another verb is reported in place, and missing and surplus operands are marked.
\<close>

fun extra_args :: "string list \<Rightarrow> string" where
  "extra_args [] = []"
| "extra_args [a] = ''string='' @ a"
| "extra_args (a # as) = ''string='' @ a @ '', '' @ extra_args as"

fun Sprintf :: "string \<Rightarrow> string list \<Rightarrow> string" where
  "Sprintf [] args = (if args = [] then [] else ''%!(EXTRA '' @ extra_args args @ '')'')"
| "Sprintf [c] args =
     (if c = CHR ''%'' then ''%!(NOVERB)'' @ (if args = [] then [] else ''%!(EXTRA '' @ extra_args args @ '')'')
      else c # Sprintf [] args)"
| "Sprintf (c # v # t) args =
     (if c \<noteq> CHR ''%'' then c # Sprintf (v # t) args
      else if v = CHR ''%'' then CHR ''%'' # Sprintf t args
      else (case args of
              [] \<Rightarrow> ''%!'' @ [v] @ ''(MISSING)'' @ Sprintf t []
            | a # as \<Rightarrow>
                (if v = CHR ''v'' \<or> v = CHR ''s'' then a @ Sprintf t as
                 else ''%!'' @ [v] @ ''(string='' @ a @ '')'' @ Sprintf t as)))"

definition AMQPProbe_String :: "amqp_probe \<Rightarrow> string" where
  "AMQPProbe_String p =
     Sprintf (gget_zero [] (amqpEnvs p) AMQPProbeDsnTemplateEnvName)
       [gget_zero [] (amqpEnvs p) AMQPProbeRabbitMqUserEnvName, ''xxx'']"

text \<open>
  \<^verbatim>\<open>DSN\<close>: \<open>Inl\<close> names the missing variable, which the code reports through \<^verbatim>\<open>p.logger\<close>, a
  field that nothing assigns.
\<close>

definition AMQP_DSN :: "amqp_probe \<Rightarrow> string + string" where
  "AMQP_DSN p =
     (case gget (amqpEnvs p) AMQPProbeDsnTemplateEnvName of
        None \<Rightarrow> Inl AMQPProbeDsnTemplateEnvName
      | Some dsnTemplate \<Rightarrow>
          (case gget (amqpEnvs p) AMQPProbeRabbitMqUserEnvName of
             None \<Rightarrow> Inl AMQPProbeRabbitMqUserEnvName
           | Some user \<Rightarrow>
               (case gget (amqpEnvs p) AMQPProbeRabbitMqPassEnvName of
                  None \<Rightarrow> Inl AMQPProbeRabbitMqPassEnvName
                | Some pass \<Rightarrow> Inr (Sprintf dsnTemplate [user, pass]))))"

definition AMQPProbe_Run :: "probe_world \<Rightarrow> amqp_probe \<Rightarrow> (bool \<times> amqp_probe) outcome" where
  "AMQPProbe_Run w p =
     (case amqpConnection p of
        Some conn \<Rightarrow>
          if wAmqpIsClosed w conn then Done (False, p\<lparr>amqpConnection := None\<rparr>)
          else Done (True, p)
      | None \<Rightarrow>
          (case AMQP_DSN p of
             Inl _ \<Rightarrow> if wNilLoggerPanics w then Panic else Done (False, p)
           | Inr dsn \<Rightarrow>
               (case wAmqpDial w dsn of
                  Inl conn \<Rightarrow> Done (False, p\<lparr>amqpConnection := conn\<rparr>)
                | Inr c \<Rightarrow>
                    (let p1 = p\<lparr>amqpConnection := Some c\<rparr>
                     in if \<not> amqpReuseConn p then
                          (if wAmqpCloseFails w c then Done (False, p1)
                           else Done (True, p1\<lparr>amqpConnection := None\<rparr>))
                        else Done (True, p1)))))"

section \<open>Shared lock\<close>

record lock_probe = lockLease :: string  lockTTLDuration :: string

definition LockProbe_String :: "lock_probe \<Rightarrow> string" where
  "LockProbe_String p = ''Check lease '' @ lockLease p"

definition LockProbe_Run :: "probe_world \<Rightarrow> string \<Rightarrow> lock_probe \<Rightarrow> bool" where
  "LockProbe_Run w SharedLockURL p =
     (case wHttpPost w (SharedLockURL @ DefaultSharedLockKeepAliveEndpoint) (lockLease p) of
        None \<Rightarrow> False
      | Some code \<Rightarrow> if code = 204 then False else True)"

section \<open>The Health interface\<close>

text \<open>\<^verbatim>\<open>HealthRun\<close>: the result of the probe, and the server after the event it pushes.\<close>

definition HealthRun ::
  "label_sources \<Rightarrow> proc_name \<Rightarrow> string \<Rightarrow> bool \<Rightarrow> server \<Rightarrow> bool \<times> server" where
  "HealthRun ls name h_String s m =
     (let probeLabels = gput ''process_name'' name (gput ''event_type'' ''readiness'' gempty);
          probeLabels = gput ''probe'' h_String probeLabels;
          probeLabels = gput ''status'' (if s then ''true'' else ''false'') probeLabels
      in (s, PushHealthEvent ls probeLabels m))"

text \<open>Surroundings in which nothing answers.\<close>

definition down_world :: probe_world where
  "down_world =
     \<lparr>wEnviron = (\<lambda>_. None), wHttpGet = (\<lambda>_. None), wHttpPost = (\<lambda>_ _. None), wDial = (\<lambda>_. False),
      wStat = (\<lambda>_. False), wExec = (\<lambda>_ _ _. ExecTimeout), wSqlOpen = (\<lambda>_. None),
      wSqlQuery = (\<lambda>_ _. None), wAmqpDial = (\<lambda>_. Inl None), wAmqpIsClosed = (\<lambda>_. True),
      wAmqpCloseFails = (\<lambda>_. True), wClock = (\<lambda>_. 1000000000000), wNilLoggerPanics = True\<rparr>"

end
