(* ===== verification/Hook.thy ===== *)
theory Hook
  imports Probes
begin

text \<open>
  Post-start hooks (pkg/process/hook.go): a list of SQL statements, a command, or both.
  A \<open>hook_world\<close> answers for the database and the child process; running out of the hook's
  deadline shows as a failed statement or command.
\<close>

record hook_world =
  hwSqlOpen :: "string \<Rightarrow> bool"
  hwSqlQuery :: "string \<Rightarrow> bool"
  hwCommand :: "string \<Rightarrow> string list \<Rightarrow> string list \<Rightarrow> bool"

record sql_hook = shQueries :: "string list"

record hook =
  hookSQL :: "sql_hook option"
  hookCommand :: "command_base option"
  hookEnvs :: "(string, string) gmap"
  hookDeadline :: duration

definition DefaultHookDeadlineSeconds :: int where "DefaultHookDeadlineSeconds = 30"

fun hook_queries :: "hook_world \<Rightarrow> string list \<Rightarrow> bool" where
  "hook_queries w [] = True"
| "hook_queries w (query # qs) = (if \<not> hwSqlQuery w query then False else hook_queries w qs)"

definition SQLHook_RunHook :: "hook_world \<Rightarrow> (string, string) gmap \<Rightarrow> sql_hook \<Rightarrow> bool" where
  "SQLHook_RunHook w envs h =
     (case gget envs ''MYSQL_DSN'' of
        None \<Rightarrow> False
      | Some dsn \<Rightarrow>
          if dsn = [] then False
          else if \<not> hwSqlOpen w dsn then False
          else hook_queries w (shQueries h))"

fun validateArgs :: "string list \<Rightarrow> string list" where
  "validateArgs [] = []"
| "validateArgs (a # args) = (if a = [] then validateArgs args else a # validateArgs args)"

definition Command_RunHook ::
  "hook_world \<Rightarrow> (string, string) gmap \<Rightarrow> command_base \<Rightarrow> bool" where
  "Command_RunHook w envs c =
     (if \<not> hwCommand w (cEntrypoint c) (validateArgs (cArgs c)) (map (\<lambda>(k, v). k @ ''='' @ v) envs)
      then False else True)"

fun hook_verdict :: "bool list \<Rightarrow> bool" where
  "hook_verdict [] = True"
| "hook_verdict (s # state) = (if \<not> s then s else hook_verdict state)"

text \<open>\<^verbatim>\<open>Hook.Run\<close>: the verdict, and the hook with its deadline defaulted.\<close>

definition Hook_Run ::
  "hook_world \<Rightarrow> (string, string) gmap \<Rightarrow> hook option \<Rightarrow> bool \<times> hook option" where
  "Hook_Run w envs h =
     (case h of
        None \<Rightarrow> (True, None)
      | Some h \<Rightarrow>
          (let h = (if zero_seconds (hookDeadline h)
                    then h\<lparr>hookDeadline := Second * DefaultHookDeadlineSeconds\<rparr> else h);
               state = (case hookSQL h of None \<Rightarrow> [] | Some q \<Rightarrow> [SQLHook_RunHook w envs q]) @
                       (case hookCommand h of None \<Rightarrow> [] | Some c \<Rightarrow> [Command_RunHook w envs c])
           in (hook_verdict state, Some h)))"

lemma hook_verdict_iff: "hook_verdict state \<longleftrightarrow> (\<forall>s \<in> set state. s)"
  by (induction state) auto

lemma hook_queries_iff: "hook_queries w qs = list_all (hwSqlQuery w) qs"
  by (induction qs) auto

lemma validateArgs_filter: "validateArgs args = filter (\<lambda>a. a \<noteq> []) args"
  by (induction args) auto

lemma SQLHook_RunHook_iff:
  "SQLHook_RunHook w envs q \<longleftrightarrow>
     (\<exists>dsn. gget envs ''MYSQL_DSN'' = Some dsn \<and> dsn \<noteq> [] \<and> hwSqlOpen w dsn \<and>
            list_all (hwSqlQuery w) (shQueries q))"
  by (auto simp: SQLHook_RunHook_def hook_queries_iff split: option.splits)

lemma Command_RunHook_iff:
  "Command_RunHook w envs c \<longleftrightarrow>
     hwCommand w (cEntrypoint c) (filter (\<lambda>a. a \<noteq> []) (cArgs c)) (map (\<lambda>(k, v). k @ ''='' @ v) envs)"
  by (simp add: Command_RunHook_def validateArgs_filter)

text \<open>Post-start hook. A command without a hook succeeds; otherwise the hook succeeds exactly
  when its SQL part (a non-empty MYSQL_DSN, a database that opens, every statement accepted) and
  its command (run with the empty arguments removed and the merged environment) both do, an
  absent part counting as success.\<close>

theorem Hook_Run_verdict:
  "fst (Hook_Run w envs hook) =
     (case hook of None \<Rightarrow> True
      | Some h \<Rightarrow>
         (case hookSQL h of None \<Rightarrow> True
          | Some q \<Rightarrow>
              (\<exists>dsn. gget envs ''MYSQL_DSN'' = Some dsn \<and> dsn \<noteq> [] \<and> hwSqlOpen w dsn \<and>
                     list_all (hwSqlQuery w) (shQueries q))) \<and>
         (case hookCommand h of None \<Rightarrow> True
          | Some c \<Rightarrow>
              hwCommand w (cEntrypoint c) (filter (\<lambda>a. a \<noteq> []) (cArgs c))
                (map (\<lambda>(k, v). k @ ''='' @ v) envs)))"
proof (cases hook)
  case (Some h)
  then show ?thesis
    by (cases "hookSQL h"; cases "hookCommand h")
      (auto simp add: Hook_Run_def Let_def SQLHook_RunHook_iff Command_RunHook_iff)
qed (simp add: Hook_Run_def)

end
