(* ===== verification/ProcessConfig.thy ===== *)
theory ProcessConfig
  imports Hook
begin

text \<open>
  The complete process configuration of pkg/process/process.go: \<^verbatim>\<open>Probe\<close> and \<^verbatim>\<open>Command\<close>.
  \<^verbatim>\<open>Readiness\<close> is a pointer, and the replicas of a command share it, so a command refers to its
  probe by a number into a store of probes.
\<close>

record probe =
  pPeriod :: duration
  pDelay :: duration
  pStartupDeadline :: duration
  pFailureThreshold :: int
  pHTTP :: "http_probe option"
  pTCP :: "tcp_probe option"
  pFile :: "file_probe option"
  pEnv :: "env_probe option"
  pExec :: "exec_probe option"
  pSQL :: "sql_probe option"
  pFloatingPid :: "floating_probe option"
  pHeartBeat :: "beat_probe option"
  pAMQP :: "amqp_probe option"
  pKeepSharedLock :: "lock_probe option"

type_synonym probe_ref = nat
type_synonym probe_store = "probe_ref \<Rightarrow> probe"

record command = command_base +
  cReadiness :: "probe_ref option"
  cPostStart :: "hook option"

definition empty_probe :: probe where
  "empty_probe =
     \<lparr>pPeriod = 0, pDelay = 0, pStartupDeadline = 0, pFailureThreshold = 0, pHTTP = None,
      pTCP = None, pFile = None, pEnv = None, pExec = None, pSQL = None, pFloatingPid = None,
      pHeartBeat = None, pAMQP = None, pKeepSharedLock = None\<rparr>"

definition ProbesUndefined :: "probe \<Rightarrow> bool" where
  "ProbesUndefined p =
     (if pTCP p = None \<and> pHTTP p = None \<and> pFile p = None \<and> pEnv p = None \<and> pExec p = None \<and>
         pSQL p = None \<and> pFloatingPid p = None \<and> pHeartBeat p = None \<and> pAMQP p = None \<and>
         pKeepSharedLock p = None
      then True else False)"

definition SetReadinessDelay :: "probe \<Rightarrow> probe" where
  "SetReadinessDelay p =
     (if zero_seconds (pDelay p) then p\<lparr>pDelay := Second * ProbeDelaySeconds\<rparr> else p)"

definition SetReadinessPeriod :: "probe \<Rightarrow> probe" where
  "SetReadinessPeriod p =
     (if zero_seconds (pPeriod p) then p\<lparr>pPeriod := Second * ProbePeriodSeconds\<rparr> else p)"

definition SetReadinessFailureThreshold :: "probe \<Rightarrow> probe" where
  "SetReadinessFailureThreshold p =
     (if pFailureThreshold p = 0 then p\<lparr>pFailureThreshold := ProbeFailureThreshold\<rparr> else p)"

definition set_defaults :: "probe \<Rightarrow> probe" where
  "set_defaults p = SetReadinessFailureThreshold (SetReadinessPeriod (SetReadinessDelay p))"

lemma set_defaults_fields [simp]:
  "pDelay (set_defaults p) = (if pDelay p = 0 then 5000000000 else pDelay p)"
  "pPeriod (set_defaults p) = (if pPeriod p = 0 then 5000000000 else pPeriod p)"
  "pFailureThreshold (set_defaults p) = (if pFailureThreshold p = 0 then 3 else pFailureThreshold p)"
  by (simp_all add: set_defaults_def SetReadinessDelay_def SetReadinessPeriod_def
      SetReadinessFailureThreshold_def zero_seconds_def Second_def ProbeDelaySeconds_def
      ProbePeriodSeconds_def ProbeFailureThreshold_def)

lemma set_defaults_idem [simp]: "set_defaults (set_defaults p) = set_defaults p"
  by (simp add: set_defaults_def SetReadinessDelay_def SetReadinessPeriod_def
      SetReadinessFailureThreshold_def zero_seconds_def Second_def ProbeDelaySeconds_def
      ProbePeriodSeconds_def ProbeFailureThreshold_def)

lemma ProbesUndefined_defaults [simp]: "ProbesUndefined (set_defaults p) = ProbesUndefined p"
  by (simp add: ProbesUndefined_def set_defaults_def SetReadinessDelay_def SetReadinessPeriod_def
      SetReadinessFailureThreshold_def)

end
