(* ===== verification/ProbeRunner.thy ===== *)
theory ProbeRunner
  imports ProcessConfig
begin

text \<open>
  The health checker of one process (\<^verbatim>\<open>HealthChecker\<close>, \<^verbatim>\<open>ProbeRunner\<close> and
  \<^verbatim>\<open>PostStartHookRunner\<close> of pkg/process/process.go). One turn of the probe loop is
  \<open>probe_round\<close>; the loop is a recursion over the list of what the rounds meet.
\<close>

section \<open>Running the probes of one round\<close>

text \<open>An optional probe: no status when it is absent, otherwise its result as reported.\<close>

definition run_one ::
  "label_sources \<Rightarrow> proc_name \<Rightarrow> ('p \<Rightarrow> (bool \<times> 'p) outcome) \<Rightarrow> ('p \<Rightarrow> string) \<Rightarrow>
   'p option \<Rightarrow> server \<Rightarrow> (bool list \<times> 'p option \<times> server) outcome" where
  "run_one ls name run str opt m =
     (case opt of
        None \<Rightarrow> Done ([], None, m)
      | Some p \<Rightarrow>
          (case run p of
             Panic \<Rightarrow> Panic
           | Done (b, p') \<Rightarrow>
               (let (s, m') = HealthRun ls name (str p') b m in Done ([s], Some p', m'))))"

definition bind_outcome :: "'a outcome \<Rightarrow> ('a \<Rightarrow> 'b outcome) \<Rightarrow> 'b outcome" where
  "bind_outcome x f = (case x of Panic \<Rightarrow> Panic | Done a \<Rightarrow> f a)"

text \<open>A probe without state of its own.\<close>

definition pure_probe :: "('p \<Rightarrow> bool) \<Rightarrow> 'p \<Rightarrow> (bool \<times> 'p) outcome" where
  "pure_probe run p = Done (run p, p)"

text \<open>
  All configured probes run in every round, in this order; the SQL and AMQP probes are given
  the merged environment of the process first.
\<close>

definition run_probes ::
  "probe_world \<Rightarrow> label_sources \<Rightarrow> string \<Rightarrow> pstate \<Rightarrow> proc_name \<Rightarrow> (string, string) gmap \<Rightarrow>
   probe \<Rightarrow> server \<Rightarrow> (bool list \<times> probe \<times> server) outcome" where
  "run_probes w ls url s name envs p m =
     bind_outcome (run_one ls name (pure_probe (HTTPProbe_Run w)) HTTPProbe_String (pHTTP p) m)
       (\<lambda>(s1, _, m).
     bind_outcome (run_one ls name (pure_probe (TCPProbe_Run w)) TCPProbe_String (pTCP p) m)
       (\<lambda>(s2, _, m).
     bind_outcome (run_one ls name (pure_probe (FileProbe_Run w)) FileProbe_String (pFile p) m)
       (\<lambda>(s3, _, m).
     bind_outcome (run_one ls name (pure_probe (EnvProbe_Run w)) EnvProbe_String (pEnv p) m)
       (\<lambda>(s4, _, m).
     bind_outcome (run_one ls name (pure_probe (ExecProbe_Run w)) ExecProbe_String (pExec p) m)
       (\<lambda>(s5, _, m).
     bind_outcome (run_one ls name (\<lambda>q. Done (SQLProbe_Run w q)) SQLProbe_String
         (map_option (\<lambda>q. q\<lparr>sqlEnvs := envs\<rparr>) (pSQL p)) m)
       (\<lambda>(s6, q6, m).
     bind_outcome (run_one ls name (pure_probe (FloatingPid_Run w s name)) FloatingPid_String
         (pFloatingPid p) m)
       (\<lambda>(s7, _, m).
     bind_outcome (run_one ls name (pure_probe (HeartBeat_Run w s name)) HeartBeat_String
         (pHeartBeat p) m)
       (\<lambda>(s8, _, m).
     bind_outcome (run_one ls name (AMQPProbe_Run w) AMQPProbe_String
         (map_option (\<lambda>q. q\<lparr>amqpEnvs := envs\<rparr>) (pAMQP p)) m)
       (\<lambda>(s9, q9, m).
     bind_outcome (run_one ls name (pure_probe (LockProbe_Run w url)) LockProbe_String
         (pKeepSharedLock p) m)
       (\<lambda>(s10, _, m).
     Done (s1 @ s2 @ s3 @ s4 @ s5 @ s6 @ s7 @ s8 @ s9 @ s10,
           p\<lparr>pSQL := q6, pAMQP := q9\<rparr>, m)))))))))))"

section \<open>Counting failures\<close>

text \<open>
  What the checker does, in the order of the program. \<open>AWrite\<close> is a call of a method of the shared state;
  the others are the counter of the readiness results, the restart event, the cancel function of the
  routines, a sleep and a SIGKILL.
\<close>

datatype run_action =
    ACount string
  | AWrite state_op
  | ARestartEvent
  | ACancel
  | ASleep duration
  | AKill pid

fun writes_of :: "run_action list \<Rightarrow> state_op list" where
  "writes_of [] = []"
| "writes_of (AWrite op # acts) = op # writes_of acts"
| "writes_of (_ # acts) = writes_of acts"

lemma writes_of_append [simp]: "writes_of (a @ b) = writes_of a @ writes_of b"
  by (induction a rule: writes_of.induct) simp_all

text \<open>What the checker keeps between rounds: the local variables of \<^verbatim>\<open>ProbeRunner\<close>.\<close>

record runner =
  failureThreshold :: int
  hookExecuted :: bool
  hookLastState :: bool

definition new_runner :: runner where
  "new_runner = \<lparr>failureThreshold = 0, hookExecuted = False, hookLastState = False\<rparr>"

text \<open>
  The loop over the statuses. \<open>limit\<close> is the configured threshold, \<open>lock\<close> says whether the
  process holds a shared lock. \<open>Inl\<close> is the early return after a restart, \<open>Inr\<close> the failure
  counter and the number of failures of this round.
\<close>

fun status_loop ::
  "proc_name \<Rightarrow> pid \<Rightarrow> int \<Rightarrow> bool \<Rightarrow> bool list \<Rightarrow> int \<Rightarrow> int \<Rightarrow> pstate \<Rightarrow>
   pstate \<times> run_action list \<times> (unit + int \<times> int)" where
  "status_loop name p limit lock [] failures unhealthy s = (s, [], Inr (failures, unhealthy))"
| "status_loop name p limit lock (st # status) failures unhealthy s =
     (if \<not> st then
        (let unhealthy = unhealthy + 1;
             s = SetState name False s;
             failures = failures + 1
         in if failures \<ge> limit then
              (let s = SetKillState name True s;
                   s = (if lock then RemoveState name s else s)
               in (s, [ACount ''failed'', AWrite (OpState name False), ARestartEvent, AWrite (OpKill name True),
                       ACancel, ASleep (Second * 2), AKill p] @ (if lock then [AWrite (OpRemove name)] else []),
                   Inl ()))
            else
              (let (s, acts, r) = status_loop name p limit lock status failures unhealthy s
               in (s, ACount ''failed'' # AWrite (OpState name False) # acts, r)))
      else
        (let (s, acts, r) = status_loop name p limit lock status failures unhealthy s
         in (s, ACount ''success'' # acts, r)))"

section \<open>One round\<close>

text \<open>\<^verbatim>\<open>PostStartHookRunner\<close>: the verdict of the hook becomes the state of the process.\<close>

definition PostStartHookRunner ::
  "hook_world \<Rightarrow> (string, string) gmap \<Rightarrow> proc_name \<Rightarrow> hook option \<Rightarrow> pstate \<Rightarrow>
   bool \<times> hook option \<times> pstate \<times> run_action list" where
  "PostStartHookRunner hw envs name h s =
     (let (v, h') = Hook_Run hw envs h in (v, h', SetState name v s, [AWrite (OpState name v)]))"

text \<open>
  What a round meets: whether its context is cancelled, the lease that a replica sharing the probe has
  written to it since the last round (\<^verbatim>\<open>AcquireSharedLock\<close>), and the answers of the world.
\<close>

record round_input =
  riCancelled :: bool
  riLease :: "string option"
  riWorld :: probe_world
  riHook :: hook_world

text \<open>The fixed data of a checker.\<close>

record checker =
  ckName :: proc_name
  ckPid :: pid
  ckEnvs :: "(string, string) gmap"
  ckLabels :: label_sources
  ckLockURL :: string

text \<open>What the checker changes: the probe, the hook, its own variables, the shared state.\<close>

record check_state =
  csProbe :: probe
  csHook :: "hook option"
  csRunner :: runner
  csState :: pstate
  csServer :: server

datatype round_end = Continue | Stopped | Restarted | Panicked

text \<open>The part of the loop after the probes have run.\<close>

definition after_probes ::
  "checker \<Rightarrow> hook_world \<Rightarrow> bool list \<Rightarrow> check_state \<Rightarrow> check_state \<times> run_action list \<times> round_end" where
  "after_probes c hw status cs =
     (let p = csProbe cs in
      if ProbesUndefined p then
        (let (v, h', s', acts) = PostStartHookRunner hw (ckEnvs c) (ckName c) (csHook cs) (csState cs)
         in (cs\<lparr>csHook := h', csState := s'\<rparr>, acts, Stopped))
      else
        (case status_loop (ckName c) (ckPid c) (pFailureThreshold p) (pKeepSharedLock p \<noteq> None)
                status (failureThreshold (csRunner cs)) 0 (csState cs) of
           (s1, acts, Inl _) \<Rightarrow> (cs\<lparr>csState := s1\<rparr>, acts, Restarted)
         | (s1, acts, Inr (failures, unhealthy)) \<Rightarrow>
             (let r = (csRunner cs)\<lparr>failureThreshold := failures\<rparr> in
              if unhealthy > 0 then
                (cs\<lparr>csRunner := r, csState := SetState (ckName c) False s1\<rparr>,
                 acts @ [AWrite (OpState (ckName c) False), ASleep (pPeriod p)], Continue)
              else if csHook cs = None then
                (cs\<lparr>csRunner := r\<lparr>failureThreshold := 0\<rparr>, csState := SetState (ckName c) True s1\<rparr>,
                 acts @ [AWrite (OpState (ckName c) True), ASleep (pPeriod p)], Continue)
              else if \<not> hookExecuted r then
                (let (v, h', s2, hacts) = PostStartHookRunner hw (ckEnvs c) (ckName c) (csHook cs) s1;
                     r = r\<lparr>hookLastState := v, hookExecuted := True\<rparr>
                 in if v then
                      (cs\<lparr>csHook := h', csRunner := r\<lparr>failureThreshold := 0\<rparr>,
                          csState := SetState (ckName c) True s2\<rparr>,
                       acts @ hacts @ [AWrite (OpState (ckName c) True), ASleep (pPeriod p)], Continue)
                    else
                      (cs\<lparr>csHook := h', csRunner := r,
                          csState := SetKillState (ckName c) True (SetState (ckName c) False s2)\<rparr>,
                       acts @ hacts @ [AWrite (OpState (ckName c) False), AWrite (OpKill (ckName c) True),
                               ACancel, AKill (ckPid c)], Restarted))
              else
                (cs\<lparr>csRunner := r, csState := s1\<rparr>, acts @ [ASleep (pPeriod p)], Continue))))"

definition probe_round ::
  "checker \<Rightarrow> round_input \<Rightarrow> check_state \<Rightarrow> check_state \<times> run_action list \<times> round_end" where
  "probe_round c i cs =
     (if riCancelled i then (cs, [], Stopped)
      else if IsShutdown (csState cs) then (cs, [], Stopped)
      else (case run_probes (riWorld i) (ckLabels c) (ckLockURL c) (csState cs) (ckName c)
                   (ckEnvs c) (csProbe cs) (csServer cs) of
              Panic \<Rightarrow> (cs, [], Panicked)
            | Done (status, p', m') \<Rightarrow>
                after_probes c (riHook i) status (cs\<lparr>csProbe := p', csServer := m'\<rparr>)))"

section \<open>The loop\<close>

text \<open>
  Between two rounds other goroutines may change the shared state and, through \<open>riLease\<close>, the lease of
  the shared probe: \<open>env\<close> gives the state the next round starts from. Within a round the checker only
  reads the state before and during its probes; all that it decides afterwards depends on their
  statuses, and its writes are the \<open>AWrite\<close> entries of the action list, so that they can be
  interleaved with what others do (\<open>after_probes_trace\<close>). The last component is \<open>Continue\<close> when the
  inputs ran out first.
\<close>

definition with_lease :: "string option \<Rightarrow> probe \<Rightarrow> probe" where
  "with_lease l p =
     (case l of None \<Rightarrow> p
      | Some i \<Rightarrow> p\<lparr>pKeepSharedLock := map_option (\<lambda>q. q\<lparr>lockLease := i\<rparr>) (pKeepSharedLock p)\<rparr>)"

definition between_rounds :: "(pstate \<Rightarrow> pstate) \<Rightarrow> round_input \<Rightarrow> check_state \<Rightarrow> check_state" where
  "between_rounds env i cs =
     cs\<lparr>csState := env (csState cs), csProbe := with_lease (riLease i) (csProbe cs)\<rparr>"

fun ProbeRunner ::
  "checker \<Rightarrow> ((pstate \<Rightarrow> pstate) \<times> round_input) list \<Rightarrow> check_state \<Rightarrow>
   check_state \<times> run_action list \<times> round_end" where
  "ProbeRunner c [] cs = (cs, [], Continue)"
| "ProbeRunner c ((env, i) # rounds) cs =
     (case probe_round c i (between_rounds env i cs) of
        (cs', acts, Continue) \<Rightarrow>
          (let (cs'', acts', e) = ProbeRunner c rounds cs' in (cs'', acts @ acts', e))
      | (cs', acts, e) \<Rightarrow> (cs', acts, e))"

text \<open>
  \<^verbatim>\<open>HealthChecker\<close>: without a readiness probe only the hook runs; otherwise the defaults are
  set, the process is marked unhealthy, and the loop starts after the delay.
\<close>

definition HealthChecker ::
  "checker \<Rightarrow> hook_world \<Rightarrow> ((pstate \<Rightarrow> pstate) \<times> round_input) list \<Rightarrow> probe option \<Rightarrow>
   hook option \<Rightarrow> pstate \<Rightarrow> server \<Rightarrow> check_state option \<times> pstate \<times> run_action list \<times> round_end" where
  "HealthChecker c hw rounds readiness h s m =
     (case readiness of
        None \<Rightarrow>
          (let (v, h', s', acts) = PostStartHookRunner hw (ckEnvs c) (ckName c) h s
           in (None, s', acts, Stopped))
      | Some p \<Rightarrow>
          (let p = set_defaults p;
               s = SetState (ckName c) False s;
               (cs, acts, e) = ProbeRunner c rounds
                 \<lparr>csProbe = p, csHook = h, csRunner = new_runner, csState = s, csServer = m\<rparr>
           in (Some cs, csState cs, AWrite (OpState (ckName c) False) # ASleep (pDelay p) # acts, e)))"

lemma with_lease_simps [simp]:
  "pHTTP (with_lease l p) = pHTTP p" "pAMQP (with_lease l p) = pAMQP p" "pSQL (with_lease l p) = pSQL p"
  "pFailureThreshold (with_lease l p) = pFailureThreshold p" "pPeriod (with_lease l p) = pPeriod p"
  "ProbesUndefined (with_lease l p) = ProbesUndefined p"
  "(pKeepSharedLock (with_lease l p) = None) = (pKeepSharedLock p = None)"
  "with_lease None p = p"
  by (simp_all add: with_lease_def ProbesUndefined_def split: option.split)

lemma between_rounds_simps [simp]:
  "csState (between_rounds env i cs) = env (csState cs)"
  "csProbe (between_rounds env i cs) = with_lease (riLease i) (csProbe cs)"
  "csHook (between_rounds env i cs) = csHook cs" "csRunner (between_rounds env i cs) = csRunner cs"
  "csServer (between_rounds env i cs) = csServer cs"
  by (simp_all add: between_rounds_def)

section \<open>The status loop in closed form\<close>

definition failures_in :: "bool list \<Rightarrow> int" where
  "failures_in status = int (count_if Not status)"

lemma failures_in_simps [simp]:
  "failures_in [] = 0"
  "failures_in (st # status) = (if st then failures_in status else failures_in status + 1)"
  by (simp_all add: failures_in_def)

lemma failures_in_nonneg: "0 \<le> failures_in status"
  by (simp add: failures_in_def)

lemma failures_in_zero: "failures_in status = 0 \<longleftrightarrow> list_all (\<lambda>b. b) status"
  by (simp add: failures_in_def count_if_zero list_all_iff)

text \<open>The counter reaches the limit within this list of statuses.\<close>

definition exceeds :: "int \<Rightarrow> int \<Rightarrow> bool list \<Rightarrow> bool" where
  "exceeds limit failures status \<longleftrightarrow>
     failures_in status > 0 \<and> failures + failures_in status \<ge> limit"

lemma exceeds_Cons:
  "exceeds limit f (st # status) \<longleftrightarrow>
     (if st then exceeds limit f status else f + 1 \<ge> limit \<or> exceeds limit (f + 1) status)"
  using failures_in_nonneg [of status] by (auto simp: exceeds_def)

lemma status_loop_result:
  "snd (snd (status_loop name p limit lock status f u s)) =
     (if exceeds limit f status then Inl () else Inr (f + failures_in status, u + failures_in status))"
proof (induction status arbitrary: f u s)
  case (Cons st status)
  then show ?case by (simp add: exceeds_Cons case_prod_beta Let_def add.assoc)
qed (simp add: exceeds_def)

definition killed_state :: "proc_name \<Rightarrow> bool \<Rightarrow> pstate \<Rightarrow> pstate" where
  "killed_state name lock s =
     (let s = SetKillState name True (SetState name False s)
      in if lock then RemoveState name s else s)"

lemma status_loop_state:
  "fst (status_loop name p limit lock status f u s) =
     (if exceeds limit f status then killed_state name lock s
      else if failures_in status > 0 then SetState name False s else s)"
proof (induction status arbitrary: f u s)
  case (Cons st status)
  have "killed_state name lock (SetState name False s) = killed_state name lock s"
    by (simp add: killed_state_def)
  then have rec: "fst (status_loop name p limit lock status (f + 1) (u + 1) (SetState name False s)) =
      (if exceeds limit (f + 1) status then killed_state name lock s else SetState name False s)"
    using Cons.IH by simp
  have step: "fst (status_loop name p limit lock (st # status) f u s) =
      (if st then fst (status_loop name p limit lock status f u s)
       else if f + 1 \<ge> limit then killed_state name lock s
       else fst (status_loop name p limit lock status (f + 1) (u + 1) (SetState name False s)))"
    by (simp add: case_prod_beta Let_def killed_state_def)
  show ?case
    unfolding step rec
    using failures_in_nonneg [of status]
    by (simp add: exceeds_Cons Cons.IH)
qed (simp add: exceeds_def)

text \<open>
  The writes of the action list, carried out in order on the state the loop starts from, give the state
  it returns; a restart marks the process, cancels the routines, waits two seconds and kills, and only
  then removes the state of a process with a lock.
\<close>

lemma status_loop_trace:
  "run_ops (writes_of (fst (snd (status_loop name p limit lock status f u s)))) s =
     fst (status_loop name p limit lock status f u s)"
  by (induction status arbitrary: f u s) (simp_all add: case_prod_beta Let_def)

lemma status_loop_state_free:
  "snd (status_loop name p limit lock status f u s) = snd (status_loop name p limit lock status f u s')"
proof (induction status arbitrary: f u s s')
  case (Cons st status)
  have "snd (status_loop name p limit lock status f' u' a) = snd (status_loop name p limit lock status f' u' b)"
    for f' u' a b by (rule Cons.IH)
  then show ?case by (simp add: case_prod_beta Let_def) (metis Cons.IH)
qed simp

definition is_kill :: "run_action \<Rightarrow> bool" where
  "is_kill a = (case a of AKill _ \<Rightarrow> True | _ \<Rightarrow> False)"

lemma is_kill_filter:
  "filter is_kill [ACount x] = []" "filter is_kill [ACount x, AWrite op] = []"
  by (simp_all add: is_kill_def)

lemma status_loop_restart:
  "status_loop n p limit lock status f u s = (s1, acts, Inl ()) \<Longrightarrow>
   \<exists>pre. acts = pre @ [ACount ''failed'', AWrite (OpState n False), ARestartEvent, AWrite (OpKill n True),
       ACancel, ASleep (Second * 2), AKill p] @ (if lock then [AWrite (OpRemove n)] else []) \<and>
     filter is_kill pre = []"
proof (induction status arbitrary: f u s acts)
  case (Cons st status)
  have step: "\<exists>new acts' f' u' s'. acts = new @ acts' \<and> filter is_kill new = [] \<and>
      status_loop n p limit lock status f' u' s' = (s1, acts', Inl ())" if "st \<or> \<not> f + 1 \<ge> limit"
  proof (cases st)
    case True
    obtain s2 as r where rec: "status_loop n p limit lock status f u s = (s2, as, r)" by (metis prod_cases3)
    then have "acts = [ACount ''success''] @ as" "s2 = s1" "r = Inl ()" using True Cons.prems by simp_all
    then show ?thesis using rec by (metis is_kill_filter(1))
  next
    case False
    obtain s2 as r where rec: "status_loop n p limit lock status (f + 1) (u + 1) (SetState n False s) = (s2, as, r)"
      by (metis prod_cases3)
    then have "acts = [ACount ''failed'', AWrite (OpState n False)] @ as" "s2 = s1" "r = Inl ()"
      using False that Cons.prems by simp_all
    then show ?thesis using rec by (metis is_kill_filter(2))
  qed
  show ?case
  proof (cases "st \<or> \<not> f + 1 \<ge> limit")
    case True
    with step obtain new acts' f' u' s' where n: "acts = new @ acts'" "filter is_kill new = []"
      "status_loop n p limit lock status f' u' s' = (s1, acts', Inl ())" by blast
    from Cons.IH [OF n(3)] obtain pre where
      "acts' = pre @ [ACount ''failed'', AWrite (OpState n False), ARestartEvent, AWrite (OpKill n True),
         ACancel, ASleep (Second * 2), AKill p] @ (if lock then [AWrite (OpRemove n)] else [])"
      "filter is_kill pre = []" by blast
    then show ?thesis using n(1,2) by (intro exI [of _ "new @ pre"]) simp
  next
    case False
    then show ?thesis using Cons.prems by (intro exI [of _ "[]"]) (auto simp: Let_def)
  qed
qed simp

section \<open>Specification of a round\<close>

text \<open>
  What one round promises, on the failure counter, the hook flag and the two entries of the
  shared state that belong to the process.
\<close>

record health_spec =
  hsFailures :: int
  hsHookDone :: bool
  hsReady :: "bool option"
  hsKilled :: bool

definition abs_check :: "proc_name \<Rightarrow> check_state \<Rightarrow> health_spec" where
  "abs_check n cs =
     \<lparr>hsFailures = failureThreshold (csRunner cs), hsHookDone = hookExecuted (csRunner cs),
      hsReady = gget (statusMap (csState cs)) n, hsKilled = IsKilled n (csState cs)\<rparr>"

text \<open>\<open>hook\<close> is \<open>None\<close> without a hook and otherwise the verdict the hook would give now.\<close>

definition spec_round ::
  "int \<Rightarrow> bool \<Rightarrow> bool option \<Rightarrow> bool list \<Rightarrow> health_spec \<Rightarrow> health_spec \<times> round_end" where
  "spec_round limit lock hook status h =
     (if exceeds limit (hsFailures h) status then
        (h\<lparr>hsReady := (if lock then None else Some False), hsKilled := True\<rparr>, Restarted)
      else if failures_in status > 0 then
        (h\<lparr>hsFailures := hsFailures h + failures_in status, hsReady := Some False\<rparr>, Continue)
      else (case hook of
              None \<Rightarrow> (h\<lparr>hsFailures := 0, hsReady := Some True\<rparr>, Continue)
            | Some v \<Rightarrow>
                if hsHookDone h then (h, Continue)
                else if v then
                  (h\<lparr>hsFailures := 0, hsHookDone := True, hsReady := Some True\<rparr>, Continue)
                else (h\<lparr>hsHookDone := True, hsReady := Some False, hsKilled := True\<rparr>, Restarted)))"

lemma state_reads [simp]:
  "gget (statusMap (SetState n b s)) n' = (if n' = n then Some b else gget (statusMap s) n')"
  "gget (statusMap (SetKillState n b s)) n' = gget (statusMap s) n'"
  "gget (statusMap (RemoveState n s)) n' = (if n' = n then None else gget (statusMap s) n')"
  "IsKilled n' (SetKillState n b s) = (if n' = n then b else IsKilled n' s)"
  "IsKilled n' (SetState n b s) = IsKilled n' s"
  "IsKilled n' (RemoveState n s) = IsKilled n' s"
  "Shutdown (SetState n b s) = Shutdown s"
  "Shutdown (SetKillState n b s) = Shutdown s"
  "Shutdown (RemoveState n s) = Shutdown s"
  by (simp_all add: SetState_def SetKillState_def RemoveState_def IsKilled_def gmap_simps)

definition hook_now :: "checker \<Rightarrow> hook_world \<Rightarrow> check_state \<Rightarrow> bool option" where
  "hook_now c hw cs =
     (case csHook cs of None \<Rightarrow> None | Some h \<Rightarrow> Some (fst (Hook_Run hw (ckEnvs c) (Some h))))"

lemma after_probes_cases:
  assumes "\<not> ProbesUndefined (csProbe cs)"
  obtains s1 acts where
    "status_loop (ckName c) (ckPid c) (pFailureThreshold (csProbe cs)) (pKeepSharedLock (csProbe cs) \<noteq> None)
       status (failureThreshold (csRunner cs)) 0 (csState cs) = (s1, acts, Inl ())"
    "exceeds (pFailureThreshold (csProbe cs)) (failureThreshold (csRunner cs)) status"
    "s1 = killed_state (ckName c) (pKeepSharedLock (csProbe cs) \<noteq> None) (csState cs)"
    "after_probes c hw status cs = (cs\<lparr>csState := s1\<rparr>, acts, Restarted)"
  | s1 acts where
    "status_loop (ckName c) (ckPid c) (pFailureThreshold (csProbe cs)) (pKeepSharedLock (csProbe cs) \<noteq> None)
       status (failureThreshold (csRunner cs)) 0 (csState cs) =
       (s1, acts, Inr (failureThreshold (csRunner cs) + failures_in status, failures_in status))"
    "\<not> exceeds (pFailureThreshold (csProbe cs)) (failureThreshold (csRunner cs)) status"
    "s1 = (if failures_in status > 0 then SetState (ckName c) False (csState cs) else csState cs)"
proof -
  obtain s1 acts r where sl: "status_loop (ckName c) (ckPid c) (pFailureThreshold (csProbe cs))
      (pKeepSharedLock (csProbe cs) \<noteq> None) status (failureThreshold (csRunner cs)) 0 (csState cs) = (s1, acts, r)"
    by (metis prod_cases3)
  note res = status_loop_result [of "ckName c" "ckPid c" "pFailureThreshold (csProbe cs)"
      "pKeepSharedLock (csProbe cs) \<noteq> None" status "failureThreshold (csRunner cs)" 0 "csState cs"]
  note st = status_loop_state [of "ckName c" "ckPid c" "pFailureThreshold (csProbe cs)"
      "pKeepSharedLock (csProbe cs) \<noteq> None" status "failureThreshold (csRunner cs)" 0 "csState cs"]
  show thesis
  proof (cases "exceeds (pFailureThreshold (csProbe cs)) (failureThreshold (csRunner cs)) status")
    case True
    then show ?thesis using sl res st assms that(1) [of s1 acts]
      by (simp add: after_probes_def Let_def)
  next
    case False
    then show ?thesis using sl res st that(2) [of s1 acts] by simp
  qed
qed

text \<open>
  The actions of a round do not depend on the shared state after its probes, and its writes are its
  effect on that state.
\<close>

lemma after_probes_trace:
  assumes "after_probes c hw status cs = (cs', acts, e)"
  shows "after_probes c hw status (cs\<lparr>csState := s\<rparr>) = (cs'\<lparr>csState := run_ops (writes_of acts) s\<rparr>, acts, e)"
proof (cases "ProbesUndefined (csProbe cs)")
  case True
  then show ?thesis using assms
    by (auto simp: after_probes_def PostStartHookRunner_def Let_def case_prod_beta)
next
  case False
  let ?loop = "status_loop (ckName c) (ckPid c) (pFailureThreshold (csProbe cs)) (pKeepSharedLock (csProbe cs) \<noteq> None)
      status (failureThreshold (csRunner cs)) 0"
  obtain s1 as r where sl: "?loop (csState cs) = (s1, as, r)" by (metis prod_cases3)
  obtain s2 where sl': "?loop s = (s2, as, r)" "s2 = run_ops (writes_of as) s"
    using status_loop_state_free status_loop_trace sl by (metis fst_conv prod.collapse snd_conv)
  show ?thesis
    using assms False sl sl'
    by (cases r)
      (simp_all add: after_probes_def PostStartHookRunner_def Let_def case_prod_beta split: if_split_asm,
        auto)
qed

lemma probe_round_writes:
  assumes "probe_round c i cs = (cs', acts, e)"
  shows "csState cs' = run_ops (writes_of acts) (csState cs)"
proof (cases "riCancelled i \<or> IsShutdown (csState cs)")
  case True
  then show ?thesis using assms by (auto simp: probe_round_def split: if_splits)
next
  case False
  show ?thesis
  proof (cases "run_probes (riWorld i) (ckLabels c) (ckLockURL c) (csState cs) (ckName c)
       (ckEnvs c) (csProbe cs) (csServer cs)")
    case Panic
    then show ?thesis using False assms by (simp add: probe_round_def)
  next
    case (Done x)
    obtain status p' m' where x: "x = (status, p', m')" by (metis prod_cases3)
    let ?cs = "cs\<lparr>csProbe := p', csServer := m'\<rparr>"
    have ap: "after_probes c (riHook i) status ?cs = (cs', acts, e)"
      using Done False assms x by (simp add: probe_round_def)
    have "?cs\<lparr>csState := csState cs\<rparr> = ?cs" by (cases cs) simp
    then have "cs' = cs'\<lparr>csState := run_ops (writes_of acts) (csState cs)\<rparr>"
      using after_probes_trace [OF ap, of "csState cs"] ap by simp
    then show ?thesis by (cases cs') simp
  qed
qed

lemma after_probes_refines:
  assumes "\<not> ProbesUndefined (csProbe cs)"
    and "after_probes c hw status cs = (cs', acts, e)"
  shows "spec_round (pFailureThreshold (csProbe cs)) (pKeepSharedLock (csProbe cs) \<noteq> None)
           (hook_now c hw cs) status (abs_check (ckName c) cs) = (abs_check (ckName c) cs', e)"
proof (cases rule: after_probes_cases [OF assms(1), of c status hw])
  case (1 s1 acts1)
  then show ?thesis
    using assms(2) by (auto simp: spec_round_def abs_check_def killed_state_def Let_def)
next
  case (2 s1 acts1)
  then show ?thesis
    using assms failures_in_nonneg [of status]
    by (auto simp: after_probes_def spec_round_def abs_check_def hook_now_def Let_def
        PostStartHookRunner_def case_prod_beta split: if_splits option.splits)
qed

section \<open>The probes of a round\<close>

lemma bind_outcome_Done [simp]:
  "bind_outcome x f = Done r \<longleftrightarrow> (\<exists>a. x = Done a \<and> f a = Done r)"
  by (cases x) (simp_all add: bind_outcome_def)

lemma run_one_pure [simp]:
  "run_one ls name (pure_probe run) str opt m =
     (case opt of None \<Rightarrow> Done ([], None, m)
      | Some p \<Rightarrow> Done ([run p], Some p, snd (HealthRun ls name (str p) (run p) m)))"
  by (simp add: run_one_def pure_probe_def HealthRun_def Let_def split: option.split)

lemma run_one_defined:
  "run_one ls name run str opt m = Done (st, opt', m') \<Longrightarrow> (opt' = None) = (opt = None)"
  by (auto simp: run_one_def Let_def split: option.splits outcome.splits prod.splits)

lemma run_one_length:
  "run_one ls name run str opt m = Done (st, opt', m') \<Longrightarrow>
   length st = (case opt of None \<Rightarrow> 0 | Some _ \<Rightarrow> 1)"
  by (auto simp: run_one_def Let_def split: option.splits outcome.splits prod.splits)

text \<open>Below the debug level, a metrics server receives one event for each failure.\<close>

definition events_sent :: "server \<Rightarrow> server \<Rightarrow> bool list \<Rightarrow> bool" where
  "events_sent m m' st \<longleftrightarrow>
     (case m of None \<Rightarrow> m' = None
      | Some wire \<Rightarrow> (\<exists>evs. m' = Some (wire @ evs) \<and> int (length evs) = failures_in st))"

lemma failures_in_append: "failures_in (a @ b) = failures_in a + failures_in b"
  by (induction a) auto

lemma events_sent_refl [simp]: "events_sent m m []"
  by (simp add: events_sent_def split: option.split)

lemma events_sent_trans:
  "events_sent m m1 a \<Longrightarrow> events_sent m1 m2 b \<Longrightarrow> events_sent m m2 (a @ b)"
  by (fastforce simp: events_sent_def failures_in_append split: option.splits)

lemma run_one_events:
  assumes "\<not> debugLevel ls" "run_one ls name run str opt m = Done (st, opt', m')"
  shows "events_sent m m' st"
proof (cases opt)
  case None
  then show ?thesis using assms(2) by (simp add: run_one_def)
next
  case (Some p)
  then show ?thesis using assms
    by (cases m)
      (auto simp: run_one_def HealthRun_def PushHealthEvent_def Let_def events_sent_def Push_def
        gmap_simps split: outcome.splits)
qed

lemma run_probes_parts:
  assumes "run_probes w ls url s name envs p m = Done (status, p', m')"
  obtains s1 s2 s3 s4 s5 s6 s7 s8 s9 s10 h1 h2 h3 h4 h5 q6 h7 h8 q9 h10 m1 m2 m3 m4 m5 m6 m7 m8 m9
  where
    "run_one ls name (pure_probe (HTTPProbe_Run w)) HTTPProbe_String (pHTTP p) m = Done (s1, h1, m1)"
    "run_one ls name (pure_probe (TCPProbe_Run w)) TCPProbe_String (pTCP p) m1 = Done (s2, h2, m2)"
    "run_one ls name (pure_probe (FileProbe_Run w)) FileProbe_String (pFile p) m2 = Done (s3, h3, m3)"
    "run_one ls name (pure_probe (EnvProbe_Run w)) EnvProbe_String (pEnv p) m3 = Done (s4, h4, m4)"
    "run_one ls name (pure_probe (ExecProbe_Run w)) ExecProbe_String (pExec p) m4 = Done (s5, h5, m5)"
    "run_one ls name (\<lambda>q. Done (SQLProbe_Run w q)) SQLProbe_String
       (map_option (\<lambda>q. q\<lparr>sqlEnvs := envs\<rparr>) (pSQL p)) m5 = Done (s6, q6, m6)"
    "run_one ls name (pure_probe (FloatingPid_Run w s name)) FloatingPid_String (pFloatingPid p) m6
       = Done (s7, h7, m7)"
    "run_one ls name (pure_probe (HeartBeat_Run w s name)) HeartBeat_String (pHeartBeat p) m7
       = Done (s8, h8, m8)"
    "run_one ls name (AMQPProbe_Run w) AMQPProbe_String
       (map_option (\<lambda>q. q\<lparr>amqpEnvs := envs\<rparr>) (pAMQP p)) m8 = Done (s9, q9, m9)"
    "run_one ls name (pure_probe (LockProbe_Run w url)) LockProbe_String (pKeepSharedLock p) m9
       = Done (s10, h10, m')"
    "status = s1 @ s2 @ s3 @ s4 @ s5 @ s6 @ s7 @ s8 @ s9 @ s10"
    "p' = p\<lparr>pSQL := q6, pAMQP := q9\<rparr>"
  using assms unfolding run_probes_def
  by (simp only: bind_outcome_Done prod.case split_paired_Ex) (elim exE conjE, simp)

lemma run_probes_keep:
  assumes "run_probes w ls url s name envs p m = Done (status, p', m')"
  shows "ProbesUndefined p' = ProbesUndefined p" "pFailureThreshold p' = pFailureThreshold p"
    "pKeepSharedLock p' = pKeepSharedLock p" "pHTTP p' = pHTTP p" "pPeriod p' = pPeriod p"
    "(pAMQP p' = None) = (pAMQP p = None)"
  by (rule run_probes_parts [OF assms];
      drule run_one_defined [where run = "\<lambda>q. Done (SQLProbe_Run w q)"];
      drule run_one_defined [where run = "AMQPProbe_Run w"];
      simp add: ProbesUndefined_def)+

definition configured :: "probe \<Rightarrow> nat" where
  "configured p =
     of_bool (pHTTP p \<noteq> None) + of_bool (pTCP p \<noteq> None) + of_bool (pFile p \<noteq> None) +
     of_bool (pEnv p \<noteq> None) + of_bool (pExec p \<noteq> None) + of_bool (pSQL p \<noteq> None) +
     of_bool (pFloatingPid p \<noteq> None) + of_bool (pHeartBeat p \<noteq> None) +
     of_bool (pAMQP p \<noteq> None) + of_bool (pKeepSharedLock p \<noteq> None)"

lemma run_one_count:
  "run_one ls name run str opt m = Done (st, opt', m') \<Longrightarrow> length st = of_bool (opt \<noteq> None)"
  by (auto dest: run_one_length split: option.splits)

section \<open>A concrete setting\<close>

text \<open>Used by the concrete instances of the theorems: a probe with an HTTP and a file part, and a
  checker.\<close>

definition web_probe :: probe where
  "web_probe = empty_probe
     \<lparr>pFailureThreshold := 4, pHTTP := Some \<lparr>httpURL = ''http://localhost/''\<rparr>,
      pFile := Some \<lparr>filePath = ''/tmp/ok''\<rparr>\<rparr>"

definition web_checker :: checker where
  "web_checker = \<lparr>ckName = ''web'', ckPid = 7, ckEnvs = [], ckLabels = quiet_labels, ckLockURL = []\<rparr>"

definition no_hook_world :: hook_world where
  "no_hook_world = \<lparr>hwSqlOpen = (\<lambda>_. False), hwSqlQuery = (\<lambda>_. False), hwCommand = (\<lambda>_ _ _. False)\<rparr>"

definition web_state :: check_state where
  "web_state = \<lparr>csProbe = web_probe, csHook = None, csRunner = new_runner,
      csState = SetState ''web'' True (NewState [] False), csServer = Some []\<rparr>"

lemma web_round:
  "\<exists>m'. run_probes down_world quiet_labels url s name envs web_probe m = Done ([False, False], web_probe, m')"
  by (simp add: run_probes_def run_one_def web_probe_def empty_probe_def HTTPProbe_Run_def
      FileProbe_Run_def down_world_def pure_probe_def HealthRun_def Let_def bind_outcome_def)

section \<open>Every configured probe runs\<close>

text \<open>C37: a round runs every configured probe. If no probe panics, each configured probe
  contributes exactly one status, however the others end, and below the debug level a metrics
  server receives exactly one event for each failed probe and none for the others.\<close>

theorem run_probes_complete:
  assumes "run_probes w ls url s name envs p m = Done (status, p', m')" and nd: "\<not> debugLevel ls"
  shows "length status = configured p \<and> events_sent m m' status"
proof
  show "length status = configured p"
    apply (rule run_probes_parts [OF assms(1)])
    apply (drule run_one_count)+
    apply (simp add: configured_def)
    done
  show "events_sent m m' status"
    apply (rule run_probes_parts [OF assms(1)])
    apply (simp only:)
    apply (drule run_one_events [OF nd])+
    apply (rule events_sent_trans, assumption)+
    apply assumption
    done
qed

theorem run_probes_complete_witness:
  "\<exists>status p' m'. run_probes down_world quiet_labels [] (NewState [] False) ''web'' [] web_probe (Some []) =
     Done (status, p', m') \<and> length status = 2 \<and> events_sent (Some []) m' status"
proof -
  obtain m' where r: "run_probes down_world quiet_labels [] (NewState [] False) ''web'' [] web_probe
      (Some []) = Done ([False, False], web_probe, m')"
    using web_round by blast
  have "\<not> debugLevel quiet_labels" by (simp add: quiet_labels_def)
  from run_probes_complete [OF r this] r show ?thesis by auto
qed

lemma run_one_total:
  "(\<And>q. run q \<noteq> Panic) \<Longrightarrow> \<exists>st o' m'. run_one ls name run str opt m = Done (st, o', m')"
  by (auto simp: run_one_def HealthRun_def Let_def split: option.split outcome.split)

lemma bind_outcome_total:
  "\<exists>s o' m. x = Done (s, o', m) \<Longrightarrow> (\<And>s o' m. \<exists>r. f s o' m = Done r) \<Longrightarrow>
   \<exists>r. bind_outcome x (\<lambda>(s, o', m). f s o' m) = Done r"
  by (auto simp: bind_outcome_def)

text \<open>Only the AMQP probe can panic.\<close>

lemma run_probes_total:
  assumes "pAMQP p = None"
  shows "\<exists>r. run_probes w ls url s name envs p m = Done r"
proof -
  have amqp: "\<exists>st o' m''. run_one ls name (AMQPProbe_Run w) AMQPProbe_String
      (map_option (\<lambda>q. q\<lparr>amqpEnvs := envs\<rparr>) (pAMQP p)) m' = Done (st, o', m'')" for m'
    using assms by (simp add: run_one_def)
  have pure: "pure_probe r q \<noteq> Panic" for r :: "'p \<Rightarrow> bool" and q
    by (simp add: pure_probe_def)
  show ?thesis
    unfolding run_probes_def
    by (intro bind_outcome_total run_one_total amqp) (simp_all add: pure_probe_def)
qed

text \<open>An HTTP exchange that shows a dead process: no answer, or a status of 299 or more.\<close>

definition http_down :: "int option \<Rightarrow> bool" where
  "http_down answer = (case answer of None \<Rightarrow> True | Some code \<Rightarrow> 299 \<le> code)"

lemma HTTPProbe_down: "http_down (wHttpGet w (httpURL h)) \<Longrightarrow> \<not> HTTPProbe_Run w h"
  by (auto simp: HTTPProbe_Run_def http_down_def split: option.splits)

lemma run_one_http_down:
  "run_one ls name (pure_probe (HTTPProbe_Run w)) str (pHTTP p) m = Done (s1, h1, m1) \<Longrightarrow>
   pHTTP p = Some h \<Longrightarrow> http_down (wHttpGet w (httpURL h)) \<Longrightarrow> s1 = [False]"
  by (simp add: HTTPProbe_down)

lemma run_probes_http_down:
  assumes "pAMQP p = None" "pHTTP p = Some h" "http_down (wHttpGet w (httpURL h))"
  shows "\<exists>status p' m'. run_probes w ls url s name envs p m = Done (status, p', m') \<and>
           failures_in status > 0"
proof -
  obtain status p' m' where r: "run_probes w ls url s name envs p m = Done (status, p', m')"
    using run_probes_total [OF assms(1)] by (metis prod_cases3)
  have "\<exists>rest. status = False # rest"
    by (rule run_probes_parts [OF r], drule run_one_http_down [OF _ assms(2,3)])
      (simp only: append_Cons append_Nil, blast)
  then obtain rest where "status = False # rest" by blast
  then have "failures_in status > 0" using failures_in_nonneg [of rest] by simp
  with r show ?thesis by blast
qed

section \<open>Rounds and runs\<close>

lemma probe_round_active:
  assumes "\<not> riCancelled i" "\<not> Shutdown (csState cs)"
    and "run_probes (riWorld i) (ckLabels c) (ckLockURL c) (csState cs) (ckName c)
           (ckEnvs c) (csProbe cs) (csServer cs) = Done (status, p', m')"
  shows "probe_round c i cs = after_probes c (riHook i) status (cs\<lparr>csProbe := p', csServer := m'\<rparr>)"
  using assms by (simp add: probe_round_def IsShutdown_def)

lemma probe_round_spec:
  assumes "\<not> riCancelled i" "\<not> Shutdown (csState cs)" "\<not> ProbesUndefined (csProbe cs)"
    and "run_probes (riWorld i) (ckLabels c) (ckLockURL c) (csState cs) (ckName c)
           (ckEnvs c) (csProbe cs) (csServer cs) = Done (status, p', m')"
    and "probe_round c i cs = (cs', acts, e)"
  shows "spec_round (pFailureThreshold (csProbe cs)) (pKeepSharedLock (csProbe cs) \<noteq> None)
           (hook_now c (riHook i) cs) status (abs_check (ckName c) cs) = (abs_check (ckName c) cs', e)"
proof -
  let ?cs = "cs\<lparr>csProbe := p', csServer := m'\<rparr>"
  have "after_probes c (riHook i) status ?cs = (cs', acts, e)"
    using probe_round_active [OF assms(1,2,4)] assms(5) by simp
  from after_probes_refines [OF _ this] show ?thesis
    using run_probes_keep [OF assms(4)] assms(3) by (simp add: abs_check_def hook_now_def)
qed

text \<open>Every round is one of these.\<close>

lemma probe_round_cases:
  assumes "probe_round c i cs = (cs', acts, e)"
  obtains (idle) "cs' = cs" "acts = []" "e = Stopped \<or> e = Panicked"
  | (active) status p' m' where "\<not> riCancelled i" "\<not> Shutdown (csState cs)"
    "run_probes (riWorld i) (ckLabels c) (ckLockURL c) (csState cs) (ckName c)
       (ckEnvs c) (csProbe cs) (csServer cs) = Done (status, p', m')"
    "after_probes c (riHook i) status (cs\<lparr>csProbe := p', csServer := m'\<rparr>) = (cs', acts, e)"
proof (cases "riCancelled i \<or> Shutdown (csState cs)")
  case True
  then have "cs' = cs \<and> acts = [] \<and> e = Stopped"
    using assms by (simp add: probe_round_def IsShutdown_def split: if_splits)
  then show thesis using idle by blast
next
  case False
  show thesis
  proof (cases "run_probes (riWorld i) (ckLabels c) (ckLockURL c) (csState cs) (ckName c)
       (ckEnvs c) (csProbe cs) (csServer cs)")
    case Panic
    then show thesis using False assms idle by (simp add: probe_round_def IsShutdown_def)
  next
    case (Done x)
    obtain status p' m' where x: "x = (status, p', m')" by (metis prod_cases3)
    show thesis
      using False assms Done x by (intro active [of status p' m']) (simp_all add: probe_round_def IsShutdown_def)
  qed
qed

lemma Hook_Run_None: "(snd (Hook_Run w envs h) = None) = (h = None)"
  by (simp add: Hook_Run_def Let_def split: option.split)

lemma Hook_Run_Some:
  "\<exists>h'. snd (Hook_Run w envs (Some h)) = Some h'" "snd (Hook_Run w envs None) = None"
  by (simp_all add: Hook_Run_def Let_def)

lemma after_probes_keep:
  assumes "after_probes c hw status cs = (cs', acts, e)"
  shows "csProbe cs' = csProbe cs" "(csHook cs' = None) = (csHook cs = None)"
    "csServer cs' = csServer cs" "Shutdown (csState cs') = Shutdown (csState cs)"
proof -
  obtain s1 as r where sl: "status_loop (ckName c) (ckPid c) (pFailureThreshold (csProbe cs))
      (pKeepSharedLock (csProbe cs) \<noteq> None) status (failureThreshold (csRunner cs)) 0 (csState cs) = (s1, as, r)"
    by (metis prod_cases3)
  have sh: "Shutdown s1 = Shutdown (csState cs)"
    using status_loop_state [of "ckName c" "ckPid c" "pFailureThreshold (csProbe cs)"
      "pKeepSharedLock (csProbe cs) \<noteq> None" status "failureThreshold (csRunner cs)" 0 "csState cs"] sl
    by (simp add: killed_state_def Let_def)
  show "csProbe cs' = csProbe cs" "(csHook cs' = None) = (csHook cs = None)"
    "csServer cs' = csServer cs" "Shutdown (csState cs') = Shutdown (csState cs)"
    using assms sl sh
    by (auto simp: after_probes_def PostStartHookRunner_def Let_def case_prod_beta Hook_Run_Some Hook_Run_None
        split: sum.splits if_splits)
qed

text \<open>C6: one round of the health checker implements its specification. In a round that is neither
  cancelled nor in shutdown, and whose probes return, the failure counter, the hook flag, the
  published readiness and the kill flag of the process, and whether the loop goes on or the process
  is restarted, are those of \<open>spec_round\<close> on the statuses of the probes.\<close>

theorem probe_round_refines_spec:
  assumes "\<not> riCancelled i" "\<not> Shutdown (csState cs)" "\<not> ProbesUndefined (csProbe cs)"
    and "run_probes (riWorld i) (ckLabels c) (ckLockURL c) (csState cs) (ckName c)
           (ckEnvs c) (csProbe cs) (csServer cs) = Done (status, p', m')"
    and "probe_round c i cs = (cs', acts, e)"
  shows "spec_round (pFailureThreshold (csProbe cs)) (pKeepSharedLock (csProbe cs) \<noteq> None)
           (hook_now c (riHook i) cs) status (abs_check (ckName c) cs) = (abs_check (ckName c) cs', e)"
  using assms by (rule probe_round_spec)

theorem probe_round_refines_spec_witness:
  "let i = \<lparr>riCancelled = False, riLease = None, riWorld = down_world, riHook = no_hook_world\<rparr>;
       (cs', acts, e) = probe_round web_checker i web_state
   in (abs_check ''web'' cs', e) =
        (\<lparr>hsFailures = 2, hsHookDone = False, hsReady = Some False, hsKilled = False\<rparr>, Continue)"
proof -
  let ?i = "\<lparr>riCancelled = False, riLease = None, riWorld = down_world, riHook = no_hook_world\<rparr>"
  obtain cs' acts e where pr: "probe_round web_checker ?i web_state = (cs', acts, e)"
    by (metis prod_cases3)
  obtain m' where r: "run_probes (riWorld ?i) (ckLabels web_checker) (ckLockURL web_checker)
      (csState web_state) (ckName web_checker) (ckEnvs web_checker) (csProbe web_state)
      (csServer web_state) = Done ([False, False], web_probe, m')"
    using web_round [of "[]" "SetState ''web'' True (NewState [] False)" "''web''" "[]" "Some []"]
    by (simp add: web_checker_def web_state_def) blast
  have "spec_round (pFailureThreshold (csProbe web_state)) (pKeepSharedLock (csProbe web_state) \<noteq> None)
      (hook_now web_checker (riHook ?i) web_state) [False, False] (abs_check (ckName web_checker) web_state)
      = (abs_check (ckName web_checker) cs', e)"
    by (rule probe_round_refines_spec [OF _ _ _ r pr])
      (simp_all add: web_state_def web_probe_def empty_probe_def NewState_def ProbesUndefined_def SetState_def)
  then have "(abs_check ''web'' cs', e) =
      (\<lparr>hsFailures = 2, hsHookDone = False, hsReady = Some False, hsKilled = False\<rparr>, Continue)"
    by (simp add: spec_round_def exceeds_def web_state_def web_probe_def empty_probe_def web_checker_def
        abs_check_def new_runner_def hook_now_def NewState_def SetState_def IsKilled_def gmap_simps)
  then show ?thesis using pr by (simp add: Let_def)
qed

subsection \<open>A process that keeps failing\<close>

lemma after_probes_failing:
  assumes "\<not> ProbesUndefined (csProbe cs)" "failures_in status > 0"
    and "after_probes c hw status cs = (cs', acts, e)"
  shows "e = Restarted \<or>
    (e = Continue \<and> failureThreshold (csRunner cs') = failureThreshold (csRunner cs) + failures_in status \<and>
     failureThreshold (csRunner cs') < pFailureThreshold (csProbe cs))"
  using after_probes_refines [OF assms(1,3)] assms(2)
  by (auto simp: spec_round_def abs_check_def exceeds_def split: if_splits)

lemma persistent_failure:
  assumes "\<forall>(env, i) \<in> set rounds. \<not> riCancelled i \<and> http_down (wHttpGet (riWorld i) (httpURL h)) \<and>
             (\<forall>s. Shutdown (env s) = Shutdown s)"
    and "pHTTP (csProbe cs) = Some h" "pAMQP (csProbe cs) = None" "\<not> Shutdown (csState cs)"
    and "rounds \<noteq> []"
    and "pFailureThreshold (csProbe cs) \<le> failureThreshold (csRunner cs) + int (length rounds)"
  shows "\<exists>cs' acts. ProbeRunner c rounds cs = (cs', acts, Restarted)"
  using assms
proof (induction rounds arbitrary: cs)
  case (Cons r rounds)
  obtain env i where r: "r = (env, i)" by (cases r)
  let ?cs = "between_rounds env i cs"
  have i: "\<not> riCancelled i" "http_down (wHttpGet (riWorld i) (httpURL h))" "\<not> Shutdown (csState ?cs)"
    using Cons.prems r by auto
  obtain status p' m' where rp: "run_probes (riWorld i) (ckLabels c) (ckLockURL c) (csState ?cs)
      (ckName c) (ckEnvs c) (csProbe ?cs) (csServer ?cs) = Done (status, p', m')"
    and f: "failures_in status > 0"
    using run_probes_http_down [of "csProbe ?cs" h "riWorld i" "ckLabels c" "ckLockURL c" "csState ?cs"
      "ckName c" "ckEnvs c" "csServer ?cs"] Cons.prems(2,3) i(2) by (simp, blast)
  obtain cs' acts e where pr: "probe_round c i ?cs = (cs', acts, e)" by (metis prod_cases3)
  then have ap: "after_probes c (riHook i) status (?cs\<lparr>csProbe := p', csServer := m'\<rparr>) = (cs', acts, e)"
    using probe_round_active [OF i(1,3) rp] by simp
  note keep = run_probes_keep [OF rp] after_probes_keep [OF ap]
  have "\<not> ProbesUndefined p'" using keep(1) Cons.prems by (simp add: ProbesUndefined_def)
  then consider "e = Restarted" | "e = Continue"
      "failureThreshold (csRunner cs') = failureThreshold (csRunner cs) + failures_in status"
      "failureThreshold (csRunner cs') < pFailureThreshold (csProbe cs)"
    using after_probes_failing [OF _ f ap] keep by auto
  then show ?case
  proof cases
    case 1
    then show ?thesis using pr r by simp
  next
    case 2
    have ne: "rounds \<noteq> []" using 2(2,3) Cons.prems(6) f by (cases rounds) simp_all
    have "\<exists>cs'' acts'. ProbeRunner c rounds cs' = (cs'', acts', Restarted)"
    proof (rule Cons.IH)
      show "\<forall>(env, i) \<in> set rounds. \<not> riCancelled i \<and> http_down (wHttpGet (riWorld i) (httpURL h)) \<and>
          (\<forall>s. Shutdown (env s) = Shutdown s)"
        using Cons.prems(1) by simp
      show "pHTTP (csProbe cs') = Some h" "pAMQP (csProbe cs') = None" "\<not> Shutdown (csState cs')"
        using keep Cons.prems(2,3) i(3) by simp_all
      show "pFailureThreshold (csProbe cs') \<le> failureThreshold (csRunner cs') + int (length rounds)"
        using 2(2) keep f Cons.prems(6) by simp
    qed (rule ne)
    then obtain cs'' acts' where "ProbeRunner c rounds cs' = (cs'', acts', Restarted)" by blast
    then show ?thesis using 2(1) pr r by simp
  qed
qed simp

text \<open>C10: a dead process is restarted in time. If in every round the HTTP request of the probe gets no
  answer or a status of 299 or more (and no AMQP probe, which could panic, is configured), then the checker restarts the process
  within as many rounds as the failure threshold, whatever its other probes and its hook do.\<close>

theorem dead_process_restarted:
  assumes "\<forall>(env, i) \<in> set rounds. \<not> riCancelled i \<and> http_down (wHttpGet (riWorld i) (httpURL h)) \<and>
             (\<forall>s. Shutdown (env s) = Shutdown s)"
    and "pHTTP p = Some h" "pAMQP p = None" "\<not> Shutdown s" "rounds \<noteq> []"
    and "pFailureThreshold (set_defaults p) \<le> int (length rounds)"
  shows "\<exists>cs s' acts. HealthChecker c hw rounds (Some p) hk s m = (Some cs, s', acts, Restarted)"
proof -
  let ?cs = "\<lparr>csProbe = set_defaults p, csHook = hk, csRunner = new_runner,
              csState = SetState (ckName c) False s, csServer = m\<rparr>"
  have f: "pHTTP (set_defaults p) = pHTTP p" "pAMQP (set_defaults p) = pAMQP p"
    by (simp_all add: set_defaults_def SetReadinessDelay_def SetReadinessPeriod_def
        SetReadinessFailureThreshold_def)
  obtain cs' acts where "ProbeRunner c rounds ?cs = (cs', acts, Restarted)"
    using persistent_failure [of rounds h ?cs c] assms f by (auto simp: new_runner_def)
  then show ?thesis by (simp add: HealthChecker_def Let_def)
qed

definition dead_round :: "int option \<Rightarrow> (pstate \<Rightarrow> pstate) \<times> round_input" where
  "dead_round answer =
     (\<lambda>s. s, \<lparr>riCancelled = False, riLease = None, riWorld = down_world\<lparr>wHttpGet := \<lambda>_. answer\<rparr>, riHook = no_hook_world\<rparr>)"

theorem dead_process_restarted_witness:
  "\<exists>cs s' acts. HealthChecker web_checker no_hook_world
     [dead_round None, dead_round (Some 503), dead_round (Some 299), dead_round None]
     (Some web_probe) None (NewState [] False) None = (Some cs, s', acts, Restarted)"
  by (rule dead_process_restarted [of _ "\<lparr>httpURL = ''http://localhost/''\<rparr>"])
    (simp_all add: dead_round_def http_down_def web_probe_def empty_probe_def NewState_def)

subsection \<open>Kills\<close>

text \<open>
  The discipline of a run that ends in \<open>e\<close> with the actions \<open>acts\<close> and the shared state \<open>s\<close>. A run that
  restarts the process kills once, its own pid; before it cancels the routines its writes have marked
  the process as killed and as not ready (from whatever state they start), it writes nothing between the
  cancelling and the kill, and afterwards at most removes the state. Other runs do not kill.
\<close>

definition marks_killed :: "proc_name \<Rightarrow> run_action list \<Rightarrow> bool" where
  "marks_killed n acts \<longleftrightarrow>
     (\<forall>s. IsKilled n (run_ops (writes_of acts) s) \<and> gget (statusMap (run_ops (writes_of acts) s)) n = Some False)"

definition kill_discipline :: "checker \<Rightarrow> run_action list \<Rightarrow> round_end \<Rightarrow> pstate \<Rightarrow> bool" where
  "kill_discipline c acts e s =
     (if e = Restarted
      then (\<exists>pre mid post. acts = pre @ [ACancel] @ mid @ [AKill (ckPid c)] @ post \<and>
              filter is_kill (pre @ mid @ post) = [] \<and> marks_killed (ckName c) pre \<and> writes_of mid = [] \<and>
              set (writes_of post) \<subseteq> {OpRemove (ckName c)}) \<and>
           IsKilled (ckName c) s \<and> gget (statusMap s) (ckName c) \<noteq> Some True
      else filter is_kill acts = [])"

lemma status_loop_no_kill:
  "status_loop n p limit lock status f u s = (s1, acts, Inr r) \<Longrightarrow> filter is_kill acts = []"
proof (induction status arbitrary: f u s acts)
  case (Cons st status)
  then show ?case
    by (auto simp: Let_def is_kill_def split: if_splits prod.splits)
qed simp

lemma kill_disciplineI:
  "e = Restarted \<Longrightarrow> acts = pre @ [ACancel] @ mid @ [AKill (ckPid c)] @ post \<Longrightarrow>
   filter is_kill (pre @ mid @ post) = [] \<Longrightarrow> marks_killed (ckName c) pre \<Longrightarrow> writes_of mid = [] \<Longrightarrow>
   set (writes_of post) \<subseteq> {OpRemove (ckName c)} \<Longrightarrow>
   IsKilled (ckName c) s \<Longrightarrow> gget (statusMap s) (ckName c) \<noteq> Some True \<Longrightarrow> kill_discipline c acts e s"
  unfolding kill_discipline_def by (simp only: if_True simp_thms) blast

lemma after_probes_kill:
  assumes "after_probes c hw status cs = (cs', acts, e)"
  shows "kill_discipline c acts e (csState cs')"
proof (cases "ProbesUndefined (csProbe cs)")
  case True
  then show ?thesis using assms
    by (auto simp: after_probes_def Let_def case_prod_beta kill_discipline_def PostStartHookRunner_def is_kill_def)
next
  case False
  show ?thesis
  proof (cases rule: after_probes_cases [OF False, of c status hw])
    case (1 s1 as)
    with assms have e: "cs' = cs\<lparr>csState := s1\<rparr>" "acts = as" "e = Restarted" by auto
    let ?lock = "pKeepSharedLock (csProbe cs) \<noteq> None"
    obtain pre where as: "as = pre @ [ACount ''failed'', AWrite (OpState (ckName c) False), ARestartEvent,
        AWrite (OpKill (ckName c) True), ACancel, ASleep (Second * 2), AKill (ckPid c)] @
        (if ?lock then [AWrite (OpRemove (ckName c))] else [])" "filter is_kill pre = []"
      using status_loop_restart [OF 1(1)] by blast
    show ?thesis
    proof (rule kill_disciplineI)
      show "acts = (pre @ [ACount ''failed'', AWrite (OpState (ckName c) False), ARestartEvent,
            AWrite (OpKill (ckName c) True)]) @ [ACancel] @ [ASleep (Second * 2)] @ [AKill (ckPid c)] @
            (if ?lock then [AWrite (OpRemove (ckName c))] else [])"
        using as(1) e(2) by simp
      show "filter is_kill ((pre @ [ACount ''failed'', AWrite (OpState (ckName c) False), ARestartEvent,
            AWrite (OpKill (ckName c) True)]) @ [ASleep (Second * 2)] @
            (if ?lock then [AWrite (OpRemove (ckName c))] else [])) = []"
        using as(2) by (simp add: is_kill_def)
      show "IsKilled (ckName c) (csState cs')" "gget (statusMap (csState cs')) (ckName c) \<noteq> Some True"
        using e(1) 1(3) by (simp_all add: killed_state_def Let_def)
    qed (use e(3) in \<open>simp_all add: marks_killed_def\<close>)
  next
    case (2 s1 as)
    have nk: "filter is_kill as = []" using status_loop_no_kill [OF 2(1)] .
    show ?thesis
    proof (cases "e = Restarted")
      case True
      have a: "acts = (as @ [AWrite (OpState (ckName c) False), AWrite (OpState (ckName c) False),
          AWrite (OpKill (ckName c) True)]) @ [ACancel] @ [] @ [AKill (ckPid c)] @ []"
        "csState cs' = SetKillState (ckName c) True (SetState (ckName c) False (SetState (ckName c) False s1))"
        using 2(1) False assms True
        by (auto simp: after_probes_def PostStartHookRunner_def Let_def case_prod_beta split: if_split_asm)
      show ?thesis
        by (rule kill_disciplineI [OF True a(1)]) (use nk a(2) in \<open>simp_all add: marks_killed_def is_kill_def\<close>)
    next
      case False
      have "filter is_kill acts = []"
        using 2(1) \<open>\<not> ProbesUndefined (csProbe cs)\<close> assms nk False
        by (simp add: after_probes_def PostStartHookRunner_def Let_def case_prod_beta split: if_split_asm)
          (auto simp: is_kill_def simp del: SetState_idem)
      then show ?thesis using False by (simp add: kill_discipline_def)
    qed
  qed
qed

lemma probe_round_kill:
  assumes "probe_round c i cs = (cs', acts, e)"
  shows "kill_discipline c acts e (csState cs')"
  using assms
proof (cases rule: probe_round_cases [OF assms])
  case 2
  then show ?thesis using after_probes_kill by blast
qed (auto simp: kill_discipline_def)

lemma kill_discipline_append:
  assumes "filter is_kill acts = []" "kill_discipline c acts' e s"
  shows "kill_discipline c (acts @ acts') e s"
proof (cases "e = Restarted")
  case True
  then obtain pre mid post where k: "acts' = pre @ [ACancel] @ mid @ [AKill (ckPid c)] @ post"
    "filter is_kill (pre @ mid @ post) = []" "marks_killed (ckName c) pre" "writes_of mid = []"
    "set (writes_of post) \<subseteq> {OpRemove (ckName c)}" "IsKilled (ckName c) s" "gget (statusMap s) (ckName c) \<noteq> Some True"
    using assms(2) unfolding kill_discipline_def by (simp only: refl if_True) blast
  show ?thesis
    by (rule kill_disciplineI [of _ _ "acts @ pre" mid _ post])
      (use True assms(1) k in \<open>simp_all add: marks_killed_def\<close>)
qed (use assms in \<open>simp add: kill_discipline_def\<close>)

text \<open>C15: kills. Over all its rounds, whatever the surroundings do, a health checker sends at most one
  kill, only when it ends by restarting the process, and to the pid it was started for. Before that
  it has, in this order, marked the process as not ready and as killed by the checker, and cancelled its
  routines; after it, it at most removes the state of the process, which is left marked as killed and
  not published as ready.\<close>

theorem ProbeRunner_kills_last:
  "case ProbeRunner c rounds cs of (cs', acts, e) \<Rightarrow> kill_discipline c acts e (csState cs')"
proof (induction rounds arbitrary: cs)
  case (Cons r rounds)
  obtain env i where r: "r = (env, i)" by (cases r)
  obtain cs1 acts e where pr: "probe_round c i (between_rounds env i cs) = (cs1, acts, e)"
    by (metis prod_cases3)
  obtain cs2 acts2 e2 where rest: "ProbeRunner c rounds cs1 = (cs2, acts2, e2)" by (metis prod_cases3)
  have k: "kill_discipline c acts e (csState cs1)" using probe_round_kill [OF pr] .
  show ?case
  proof (cases "e = Continue")
    case True
    have "filter is_kill acts = []" using k True by (simp add: kill_discipline_def)
    moreover have "kill_discipline c acts2 e2 (csState cs2)" using Cons.IH [of cs1] rest by simp
    ultimately have "kill_discipline c (acts @ acts2) e2 (csState cs2)" by (rule kill_discipline_append)
    then show ?thesis using pr r rest True by simp
  next
    case False
    then show ?thesis using pr r k by (cases e) simp_all
  qed
qed (simp add: kill_discipline_def)

subsection \<open>The post-start hook latches the process unready\<close>

definition hook_latched :: "proc_name \<Rightarrow> check_state \<Rightarrow> bool" where
  "hook_latched n cs \<longleftrightarrow>
     csHook cs \<noteq> None \<and> hookExecuted (csRunner cs) \<and> \<not> ProbesUndefined (csProbe cs) \<and>
     gget (statusMap (csState cs)) n \<noteq> Some True"

lemma after_probes_latched:
  assumes "hook_latched (ckName c) cs" "after_probes c hw status cs = (cs', acts, e)"
  shows "hook_latched (ckName c) cs'"
proof -
  have "spec_round (pFailureThreshold (csProbe cs)) (pKeepSharedLock (csProbe cs) \<noteq> None)
      (hook_now c hw cs) status (abs_check (ckName c) cs) = (abs_check (ckName c) cs', e)"
    using after_probes_refines assms by (simp add: hook_latched_def)
  moreover obtain v where "hook_now c hw cs = Some v"
    using assms(1) by (auto simp: hook_latched_def hook_now_def)
  ultimately show ?thesis
    using assms(1) after_probes_keep [OF assms(2)]
    by (auto simp: hook_latched_def spec_round_def abs_check_def split: if_splits)
qed

lemma probe_round_latched:
  assumes "hook_latched (ckName c) cs" "probe_round c i cs = (cs', acts, e)"
  shows "hook_latched (ckName c) cs'"
  using assms(2)
proof (cases rule: probe_round_cases)
  case (active status p' m')
  have "hook_latched (ckName c) (cs\<lparr>csProbe := p', csServer := m'\<rparr>)"
    using assms(1) run_probes_keep [OF active(3)] by (simp add: hook_latched_def)
  then show ?thesis using after_probes_latched active(4) by blast
qed (use assms in simp)

text \<open>C25: a process with a post-start hook does not recover. Once the hook has run and a probe has
  failed, the health checker never publishes the process as ready again, whatever the later rounds
  bring, as long as no one else does.\<close>

theorem hook_latches_unready:
  assumes "hook_latched (ckName c) cs"
    and "\<forall>(env, i) \<in> set rounds. \<forall>s. gget (statusMap (env s)) (ckName c) = gget (statusMap s) (ckName c)"
  shows "case ProbeRunner c rounds cs of
           (cs', acts, e) \<Rightarrow> gget (statusMap (csState cs')) (ckName c) \<noteq> Some True"
proof -
  have "hook_latched (ckName c) (fst (ProbeRunner c rounds cs))"
    using assms
  proof (induction rounds arbitrary: cs)
    case (Cons r rounds)
    obtain env i where r: "r = (env, i)" by (cases r)
    have "hook_latched (ckName c) (between_rounds env i cs)"
      using Cons.prems r by (auto simp: hook_latched_def)
    moreover obtain cs1 acts e where pr: "probe_round c i (between_rounds env i cs) = (cs1, acts, e)"
      by (metis prod_cases3)
    ultimately have l: "hook_latched (ckName c) cs1" using probe_round_latched by blast
    with Cons.IH [OF l] Cons.prems(2) pr r show ?case
      by (cases e) (simp_all add: case_prod_beta Let_def)
  qed simp
  then show ?thesis by (simp add: hook_latched_def case_prod_beta)
qed

theorem hook_latches_unready_witness:
  "case ProbeRunner web_checker
     (replicate 3 (\<lambda>s. s, \<lparr>riCancelled = False, riLease = None, riWorld = down_world\<lparr>wHttpGet := \<lambda>_. Some 200, wStat := \<lambda>_. True\<rparr>,
         riHook = no_hook_world\<rparr>))
     (web_state\<lparr>csHook := Some \<lparr>hookSQL = None, hookCommand = None, hookEnvs = [], hookDeadline = 0\<rparr>,
        csRunner := new_runner\<lparr>hookExecuted := True\<rparr>, csState := SetState ''web'' False (NewState [] False)\<rparr>) of
     (cs', acts, e) \<Rightarrow> gget (statusMap (csState cs')) ''web'' \<noteq> Some True"
  using hook_latches_unready [of web_checker "web_state\<lparr>csHook := Some \<lparr>hookSQL = None, hookCommand = None,
      hookEnvs = [], hookDeadline = 0\<rparr>, csRunner := new_runner\<lparr>hookExecuted := True\<rparr>,
      csState := SetState ''web'' False (NewState [] False)\<rparr>"
    "replicate 3 (\<lambda>s. s, \<lparr>riCancelled = False, riLease = None, riWorld = down_world\<lparr>wHttpGet := \<lambda>_. Some 200, wStat := \<lambda>_. True\<rparr>,
         riHook = no_hook_world\<rparr>)"]
  by (simp add: hook_latched_def web_checker_def web_state_def web_probe_def empty_probe_def ProbesUndefined_def)

end
