(* ===== verification/ProbeProps.thy ===== *)
theory ProbeProps
  imports ProbeRunner
begin

text \<open>
  What the probes decide. A probe with state of its own (an open database handle, a broker
  connection) keeps its configuration: the interface \<open>health_probe\<close> states this once for all
  probes, and its lemma carries it over any number of rounds.
\<close>

section \<open>Configurations survive the rounds\<close>

locale health_probe =
  fixes run :: "'w \<Rightarrow> 'p \<Rightarrow> (bool \<times> 'p) outcome"
    and conf :: "'p \<Rightarrow> 'c"
  assumes run_conf: "run w p = Done (b, p') \<Longrightarrow> conf p' = conf p"
begin

text \<open>The probe run in one round after another, with the surroundings of each.\<close>

lemma fold_conf:
  assumes "fold (\<lambda>w acc. case acc of None \<Rightarrow> None
                  | Some p \<Rightarrow> (case run w p of Panic \<Rightarrow> None | Done (b, p') \<Rightarrow> Some p')) ws (Some p) = Some p'"
  shows "conf p' = conf p"
  using assms
proof (induction ws arbitrary: p)
  case (Cons w ws)
  have none: "fold (\<lambda>w acc. case acc of None \<Rightarrow> None
      | Some p \<Rightarrow> (case run w p of Panic \<Rightarrow> None | Done (b, p') \<Rightarrow> Some p')) ws None = None" for ws
    by (induction ws) simp_all
  show ?case
  proof (cases "run w p")
    case Panic
    then show ?thesis using Cons.prems none by simp
  next
    case (Done x)
    then show ?thesis using Cons none run_conf by (cases x) auto
  qed
qed simp

lemma run_one_conf:
  assumes "run_one ls name (run w) str opt m = Done (st, opt', m')"
  shows "map_option conf opt' = map_option conf opt"
  using assms run_conf
  by (auto simp: run_one_def Let_def split: option.splits outcome.splits prod.splits)

end

definition sql_conf :: "sql_probe \<Rightarrow> string list \<times> string list \<times> (string, string) gmap" where
  "sql_conf p = (sqlQueries p, sqlContains p, sqlEnvs p)"

definition amqp_conf :: "amqp_probe \<Rightarrow> bool \<times> (string, string) gmap" where
  "amqp_conf p = (amqpReuseConn p, amqpEnvs p)"

interpretation sql_health: health_probe "\<lambda>w p. Done (SQLProbe_Run w p)" sql_conf
  by unfold_locales
    (auto simp: SQLProbe_Run_def NewDBConnect_def sql_conf_def split: option.splits if_splits)

interpretation amqp_health: health_probe AMQPProbe_Run amqp_conf
  by unfold_locales
    (auto simp: AMQPProbe_Run_def amqp_conf_def Let_def split: option.splits if_splits sum.splits)

text \<open>What a probe is configured to do, without the handles it holds and the lease it renews.\<close>

definition probe_conf ::
  "probe \<Rightarrow> probe \<times> (string list \<times> string list) option \<times> bool option \<times> string option" where
  "probe_conf p =
     (p\<lparr>pSQL := None, pAMQP := None, pKeepSharedLock := None\<rparr>,
      map_option (\<lambda>q. (sqlQueries q, sqlContains q)) (pSQL p), map_option amqpReuseConn (pAMQP p),
      map_option lockTTLDuration (pKeepSharedLock p))"

lemma probe_conf_with_lease [simp]: "probe_conf (with_lease l p) = probe_conf p"
  by (cases "pKeepSharedLock p") (simp_all add: probe_conf_def with_lease_def split: option.split)

lemma run_probes_conf:
  assumes "run_probes w ls url s name envs p m = Done (status, p', m')"
  shows "probe_conf p' = probe_conf p"
proof (rule run_probes_parts [OF assms])
  fix s6 q6 s9 q9 m5 m6 m8 m9
  assume "run_one ls name (\<lambda>q. Done (SQLProbe_Run w q)) SQLProbe_String
       (map_option (\<lambda>q. q\<lparr>sqlEnvs := envs\<rparr>) (pSQL p)) m5 = Done (s6, q6, m6)"
    and "run_one ls name (AMQPProbe_Run w) AMQPProbe_String
       (map_option (\<lambda>q. q\<lparr>amqpEnvs := envs\<rparr>) (pAMQP p)) m8 = Done (s9, q9, m9)"
    and p': "p' = p\<lparr>pSQL := q6, pAMQP := q9\<rparr>"
  then have keep: "map_option sql_conf q6 = map_option sql_conf (map_option (\<lambda>q. q\<lparr>sqlEnvs := envs\<rparr>) (pSQL p))"
    "map_option amqp_conf q9 = map_option amqp_conf (map_option (\<lambda>q. q\<lparr>amqpEnvs := envs\<rparr>) (pAMQP p))"
    by (blast dest: sql_health.run_one_conf amqp_health.run_one_conf)+
  have "map_option (\<lambda>q. (sqlQueries q, sqlContains q)) q6 =
      map_option (\<lambda>q. (sqlQueries q, sqlContains q)) (pSQL p)"
    using keep(1) by (cases "pSQL p"; cases q6; simp add: sql_conf_def)
  moreover have "map_option amqpReuseConn q9 = map_option amqpReuseConn (pAMQP p)"
    using keep(2) by (cases "pAMQP p"; cases q9; simp add: amqp_conf_def)
  moreover have "p'\<lparr>pSQL := None, pAMQP := None, pKeepSharedLock := None\<rparr> =
      p\<lparr>pSQL := None, pAMQP := None, pKeepSharedLock := None\<rparr>"
    by (simp add: p')
  ultimately show ?thesis unfolding probe_conf_def by (simp only:) (simp add: p')
qed

lemma fold_with_lease_lock:
  "pKeepSharedLock p = pKeepSharedLock p' \<Longrightarrow>
   pKeepSharedLock (fold with_lease ls p) = pKeepSharedLock (fold with_lease ls p')"
proof (induction ls arbitrary: p p')
  case (Cons l ls)
  from Cons.prems have "pKeepSharedLock (with_lease l p) = pKeepSharedLock (with_lease l p')"
    by (simp add: with_lease_def split: option.split)
  from Cons.IH [OF this] show ?case by simp
qed simp

text \<open>C36: rounds keep the configuration. However many rounds the checker runs and however they end, what
  the probes are configured to check, the thresholds and the periods are what they were when it
  started; and the shared lock it keeps alive is the one it started with, changed only by what sharing
  replicas wrote before one of its rounds.\<close>

theorem ProbeRunner_keeps_conf:
  "case ProbeRunner c rounds cs of (cs', acts, e) \<Rightarrow>
     probe_conf (csProbe cs') = probe_conf (csProbe cs) \<and>
     (\<exists>k. pKeepSharedLock (csProbe cs') =
        pKeepSharedLock (fold with_lease (map (\<lambda>(env, i). riLease i) (take k rounds)) (csProbe cs)))"
proof (induction rounds arbitrary: cs)
  case (Cons r rounds)
  obtain env i where r: "r = (env, i)" by (cases r)
  let ?cs = "between_rounds env i cs"
  obtain cs1 acts e where pr: "probe_round c i ?cs = (cs1, acts, e)" by (metis prod_cases3)
  have k: "probe_conf (csProbe cs1) = probe_conf (csProbe cs) \<and>
      pKeepSharedLock (csProbe cs1) = pKeepSharedLock (with_lease (riLease i) (csProbe cs))"
  proof (cases rule: probe_round_cases [OF pr])
    case (2 status p' m')
    then show ?thesis
      using run_probes_conf [OF 2(3)] run_probes_keep(3) [OF 2(3)] after_probes_keep(1) [OF 2(4)] by simp
  qed simp
  show ?case
  proof (cases "e = Continue")
    case True
    obtain cs2 acts2 e2 where rest: "ProbeRunner c rounds cs1 = (cs2, acts2, e2)" by (metis prod_cases3)
    then obtain n where "probe_conf (csProbe cs2) = probe_conf (csProbe cs1)"
      "pKeepSharedLock (csProbe cs2) =
        pKeepSharedLock (fold with_lease (map (\<lambda>(env, i). riLease i) (take n rounds)) (csProbe cs1))"
      using Cons.IH [of cs1] by auto
    moreover have "pKeepSharedLock (fold with_lease ls (csProbe cs1)) =
        pKeepSharedLock (fold with_lease ls (with_lease (riLease i) (csProbe cs)))" for ls
      using k by (intro fold_with_lease_lock) simp
    ultimately show ?thesis
      using pr r rest True k by (auto intro: exI [of _ "Suc n"])
  next
    case False
    then show ?thesis using pr r k by (cases e) (auto intro: exI [of _ 1])
  qed
qed (auto intro: exI [of _ 0])

section \<open>Floating pid\<close>

lemma NumOfRestarts_sim:
  assumes "state_sim s a"
  shows "NumOfRestarts (\<lambda>_. now) period n s =
    count_if (\<lambda>t. time_Unix (time_Add now (- period)) < time_Unix t) (last_n floatingPidHistory (aStarts a n))"
  using assms by (simp add: NumOfRestarts_def restarts_loop_const state_sim_def)

text \<open>C38: the floating-pid probe. After any history of the shared state, with a clock that stands still
  while it runs, the probe fails exactly when more of the last ten starts of the process than the
  threshold (1 if it is 0) fall into the period (ten seconds if it is 0), in whole seconds; the first
  start counts like a restart, and with a threshold of ten or more the probe never fails.\<close>

theorem FloatingPid_counts_starts:
  assumes "wClock w = (\<lambda>_. now)"
  shows "FloatingPid_Run w (run_ops ops (NewState file drain)) n p =
     (int (count_if (\<lambda>t. time_Unix (time_Add now (- (if fpPeriod p = 0 then 10 * Second else fpPeriod p)))
                          < time_Unix t)
             (last_n 10 (aStarts (fold spec_op ops init_astate) n)))
        \<le> (if fpThreshold p = 0 then 1 else fpThreshold p)) \<and>
    (if fpThreshold p \<ge> 10 then FloatingPid_Run w (run_ops ops (NewState file drain)) n p else True)"
proof -
  have sim: "state_sim (run_ops ops (NewState file drain)) (fold spec_op ops init_astate)"
    using state_sim_run [OF state_sim_init] .
  have eq: "FloatingPid_Run w (run_ops ops (NewState file drain)) n p =
     (int (count_if (\<lambda>t. time_Unix (time_Add now (- (if fpPeriod p = 0 then 10 * Second else fpPeriod p)))
                          < time_Unix t)
             (last_n 10 (aStarts (fold spec_op ops init_astate) n)))
        \<le> (if fpThreshold p = 0 then 1 else fpThreshold p))"
    using NumOfRestarts_sim [OF sim]
    by (simp add: FloatingPid_Run_def assms zero_seconds_def floatingPidHistory_def mult.commute Let_def)
  have ten: "int (count_if P (last_n 10 xs)) \<le> 10" for P and xs :: "gotime list"
    using count_if_le [of P "last_n 10 xs"] by simp
  have "int (count_if P (last_n 10 xs)) \<le> (if fpThreshold p = 0 then 1 else fpThreshold p)"
    if "fpThreshold p \<ge> 10" for P and xs :: "gotime list"
    using ten [of P xs] that by simp
  then show ?thesis using eq by simp
qed

theorem FloatingPid_counts_starts_witness:
  "\<not> FloatingPid_Run (down_world\<lparr>wClock := \<lambda>_. 5000000000\<rparr>)
       (run_ops [OpPid ''a'' 1 1000000000, OpPid ''a'' 2 3000000000] (NewState [] False)) ''a''
       \<lparr>fpPeriod = 0, fpThreshold = 0\<rparr>"
  using FloatingPid_counts_starts [of "down_world\<lparr>wClock := \<lambda>_. 5000000000\<rparr>" 5000000000
      "[OpPid ''a'' 1 1000000000, OpPid ''a'' 2 3000000000]" "[]" False "''a''" "\<lparr>fpPeriod = 0, fpThreshold = 0\<rparr>"]
  by (simp add: init_astate_def last_n_def time_Unix_def time_Add_def Second_def)

section \<open>Heart beat\<close>

text \<open>The heart-beat probe. It passes exactly when the last beat is not older than the period; a
  process that has never beaten fails it, for every period below the longest duration.\<close>

theorem HeartBeat_verdict:
  assumes "is_duration (hbPeriod h)" and "0 \<le> wClock w 0"
  shows "HeartBeat_Run w s n h =
    (case gget (heartBeat s) n of
       Some t \<Rightarrow> time_Sub (wClock w 0) t \<le> hbPeriod h
     | None \<Rightarrow> hbPeriod h = max_duration)"
proof (cases "gget (heartBeat s) n")
  case None
  have "time_Sub (wClock w 0) zero_time = max_duration"
    using assms(2) by (simp add: time_Sub_def zero_time_def max_duration_def min_duration_def)
  then show ?thesis using None assms(1)
    by (auto simp: HeartBeat_Run_def Let_def GetHeartBeat_def gget_zero_def is_duration_def)
qed (auto simp: HeartBeat_Run_def Let_def GetHeartBeat_def gget_zero_def)

theorem HeartBeat_verdict_witness:
  "\<not> HeartBeat_Run down_world (NewState [] False) ''a'' \<lparr>hbPeriod = 3600000000000\<rparr>"
proof -
  have "is_duration (hbPeriod \<lparr>hbPeriod = 3600000000000\<rparr>)" "0 \<le> wClock down_world 0"
    by (simp_all add: is_duration_def min_duration_def max_duration_def down_world_def)
  from HeartBeat_verdict [OF this, of "NewState [] False" "''a''"] show ?thesis
    by (simp add: NewState_def gmap_simps max_duration_def)
qed

section \<open>SQL\<close>

lemma contains_loop_iff: "contains_loop rs es \<longleftrightarrow> set es \<subseteq> set rs"
  by (induction es) auto

lemma set_the: "None \<notin> set rows \<Longrightarrow> set (map the rows) = {x. Some x \<in> set rows}"
  by (induction rows) auto

lemma scan_rows_Some: "scan_rows rows acc = (if None \<in> set rows then None else Some (acc @ map the rows))"
  by (induction rows acc rule: scan_rows.induct) auto

lemma queries_loop_iff:
  "queries_loop w db es qs \<longleftrightarrow>
     list_all (\<lambda>q. set es \<subseteq> (case SQLQuery w db q of None \<Rightarrow> {} | Some l \<Rightarrow> set l)) qs"
  by (induction qs) (auto simp: contains_loop_iff Let_def split: option.splits)

text \<open>The SQL probe. With a data source name and a handle that opens, it passes exactly when every
  query returns every expected string, a failed query or an unreadable row counting as no answer;
  so with nothing expected it passes although every query fails.\<close>

theorem SQLProbe_verdict:
  "fst (SQLProbe_Run w p) =
     (case gget (sqlEnvs p) ''MYSQL_DSN'' of
        None \<Rightarrow> False
      | Some dsn \<Rightarrow>
          dsn \<noteq> [] \<and>
          (case (if sqlDb p = None then wSqlOpen w dsn else sqlDb p) of
             None \<Rightarrow> False
           | Some db \<Rightarrow>
               sqlContains p = [] \<or>
               list_all (\<lambda>q. case wSqlQuery w db q of
                   None \<Rightarrow> False
                 | Some rows \<Rightarrow> None \<notin> set rows \<and> Some ` set (sqlContains p) \<subseteq> set rows) (sqlQueries p)))"
proof -
  have q: "set es \<subseteq> (case SQLQuery w db q of None \<Rightarrow> {} | Some l \<Rightarrow> set l) \<longleftrightarrow>
      es = [] \<or> (case wSqlQuery w db q of None \<Rightarrow> False
                 | Some rows \<Rightarrow> None \<notin> set rows \<and> Some ` set es \<subseteq> set rows)" for es db q
  proof (cases "wSqlQuery w db q")
    case (Some rows)
    show ?thesis
    proof (cases "None \<in> set rows")
      case False
      then have "set (map the rows) = {x. Some x \<in> set rows}" by (rule set_the)
      then show ?thesis using Some False by (auto simp: SQLQuery_def scan_rows_Some)
    qed (use Some in \<open>simp add: SQLQuery_def scan_rows_Some\<close>)
  qed (simp add: SQLQuery_def)
  show ?thesis
    by (auto simp: SQLProbe_Run_def NewDBConnect_def queries_loop_iff q list_all_iff
        split: option.splits if_splits)
qed

section \<open>AMQP\<close>

text \<open>The AMQP probe and missing credentials. With no connection and one of its three variables
  missing, the probe logs through a logger that nothing sets: if the logging library panics on a nil
  entry, the probe does, and takes the wrapper with it; otherwise it fails.\<close>

theorem AMQPProbe_missing_env:
  assumes "amqpConnection p = None"
    and "gget (amqpEnvs p) AMQPProbeDsnTemplateEnvName = None \<or>
         gget (amqpEnvs p) AMQPProbeRabbitMqUserEnvName = None \<or>
         gget (amqpEnvs p) AMQPProbeRabbitMqPassEnvName = None"
  shows "AMQPProbe_Run w p = (if wNilLoggerPanics w then Panic else Done (False, p))"
  using assms by (auto simp: AMQPProbe_Run_def AMQP_DSN_def split: option.splits)

theorem AMQPProbe_missing_env_witness:
  "AMQPProbe_Run down_world \<lparr>amqpEnvs = [], amqpReuseConn = True, amqpConnection = None\<rparr> = Panic"
proof -
  let ?p = "\<lparr>amqpEnvs = [], amqpReuseConn = True, amqpConnection = None\<rparr> :: amqp_probe"
  have "AMQPProbe_Run down_world ?p = (if wNilLoggerPanics down_world then Panic else Done (False, ?p))"
    by (rule AMQPProbe_missing_env) (simp_all add: gget_def)
  then show ?thesis by (simp add: down_world_def)
qed

end
