(* ===== verification/Schedule.thy ===== *)
theory Schedule
  imports ProcessConfig
begin

text \<open>
  What is started: \<^verbatim>\<open>NewSchedule\<close> of pkg/process/process.go, the configuration sources and
  \<^verbatim>\<open>PromTargets\<close> of pkg/config. \<^verbatim>\<open>NewSchedule\<close> is a fold over the configured commands that
  counts the wait group up and starts one \<^verbatim>\<open>Run\<close> per command or replica.
\<close>

section \<open>Replicas\<close>

text \<open>\<^verbatim>\<open>fmt.Sprintf("%v_%v", name, r)\<close>\<close>

definition replica_name :: "proc_name \<Rightarrow> nat \<Rightarrow> proc_name" where
  "replica_name n r = n @ ''_'' @ show_nat r"

text \<open>The literal names eleven fields; the others keep their zero values.\<close>

definition replicaCommand :: "command \<Rightarrow> nat \<Rightarrow> command" where
  "replicaCommand c r =
     \<lparr>cName = replica_name (cName c) r, cEntrypoint = cEntrypoint c, cArgs = cArgs c,
      cEnvs = cEnvs c, cEnvsFile = cEnvsFile c, cRestartPolicy = [], cLogFormat = cLogFormat c,
      cDir = [], cPromTarget = [], cSysProcAttr = cSysProcAttr c, cReplicas = 0,
      cMemoryLimitMB = cMemoryLimitMB c, cReadiness = cReadiness c, cPostStart = None\<rparr>"

section \<open>The schedule\<close>

text \<open>
  The commands whose usage is collected from here (the wrapper itself, under a name of its own), the
  names for the log, the wait group, and the goroutines running \<^verbatim>\<open>Run\<close>.
\<close>

record schedule =
  schedStats :: "command_base list"
  commandList :: "proc_name list"
  schedWg :: int
  launched :: "command list"

definition launch :: "command \<Rightarrow> schedule \<Rightarrow> schedule" where
  "launch c s = s\<lparr>commandList := commandList s @ [cName c], schedWg := schedWg s + 1,
                  launched := launched s @ [c]\<rparr>"

text \<open>The inner loop, from \<open>r\<close> on, with \<open>k\<close> replicas to go.\<close>

fun replica_loop :: "command \<Rightarrow> nat \<Rightarrow> nat \<Rightarrow> schedule \<Rightarrow> schedule" where
  "replica_loop c r 0 s = s"
| "replica_loop c r (Suc k) s = replica_loop c (Suc r) k (launch (replicaCommand c r) s)"

fun schedule_loop :: "string list \<Rightarrow> command list \<Rightarrow> schedule \<Rightarrow> schedule" where
  "schedule_loop skipCommands [] s = s"
| "schedule_loop skipCommands (c # cs) s =
     (if sliceContains skipCommands (cName c) then schedule_loop skipCommands cs s
      else if cReplicas c > 0 then
        schedule_loop skipCommands cs (replica_loop c 0 (nat (cReplicas c)) s)
      else schedule_loop skipCommands cs (launch c s))"

definition wrapper_command :: command_base where
  "wrapper_command = zero_command\<lparr>cName := ''process-wrapper''\<rparr>"

text \<open>The \<^verbatim>\<open>Done\<close> at the end answers the \<^verbatim>\<open>Add\<close> of \<^verbatim>\<open>StartProcessWrapper\<close>.\<close>

definition NewSchedule :: "command list \<Rightarrow> string list \<Rightarrow> int \<Rightarrow> schedule" where
  "NewSchedule commands skipCommands wg =
     (let s = schedule_loop skipCommands commands
                \<lparr>schedStats = [wrapper_command], commandList = [], schedWg = wg, launched = []\<rparr>
      in s\<lparr>schedWg := schedWg s - 1\<rparr>)"

section \<open>The schedule in closed form\<close>

definition expand :: "command \<Rightarrow> command list" where
  "expand c = (if cReplicas c > 0 then map (replicaCommand c) [0..<nat (cReplicas c)] else [c])"

definition selected :: "string list \<Rightarrow> command list \<Rightarrow> command list" where
  "selected skip cs = filter (\<lambda>c. cName c \<notin> set skip) cs"

lemma replica_loop_launch:
  "replica_loop c r k s = fold launch (map (replicaCommand c) [r..<r + k]) s"
  by (induction k arbitrary: r s) (simp_all add: upt_conv_Cons del: upt_Suc)

lemma schedule_loop_launch:
  "schedule_loop skip cs s = fold launch (concat (map expand (selected skip cs))) s"
  by (induction cs arbitrary: s)
    (simp_all add: selected_def expand_def replica_loop_launch sliceContains_iff)

lemma fold_launch:
  "fold launch cs s =
     s\<lparr>commandList := commandList s @ map cName cs, schedWg := schedWg s + int (length cs),
       launched := launched s @ cs\<rparr>"
  by (induction cs arbitrary: s) (simp_all add: launch_def)

lemma launched_NewSchedule:
  "launched (NewSchedule cs skip wg) = concat (map expand (selected skip cs))"
  by (simp add: NewSchedule_def Let_def schedule_loop_launch fold_launch)

text \<open>The schedule. Exactly the commands whose name is not skipped are started, in order, a
  command with a positive number of replicas as that many replicas numbered from 0; each start is
  counted once in the wait group, and the call's own count is given back.\<close>

theorem NewSchedule_starts:
  "NewSchedule commands skip wg =
     (let started = concat (map expand (filter (\<lambda>c. cName c \<notin> set skip) commands))
      in \<lparr>schedStats = [wrapper_command], commandList = map cName started,
          schedWg = wg + int (length started) - 1, launched = started\<rparr>)"
  by (simp add: NewSchedule_def Let_def schedule_loop_launch fold_launch selected_def)

section \<open>Names\<close>

lemma replica_name_inj: "replica_name n r = replica_name n' r' \<longleftrightarrow> n = n' \<and> r = r'"
proof
  assume e: "replica_name n r = replica_name n' r'"
  have split: "takeWhile (\<lambda>c. c \<noteq> CHR ''_'') (rev (replica_name m q)) = rev (show_nat q)" for m q
  proof -
    have "takeWhile (\<lambda>c. c \<noteq> CHR ''_'') (rev (show_nat q) @ CHR ''_'' # rev m) = rev (show_nat q)"
      using show_nat_no_underscore [of q] by (subst takeWhile_append2) auto
    then show ?thesis by (simp add: replica_name_def)
  qed
  from e have "show_nat r = show_nat r'" using split [of n r] split [of n' r'] by simp
  then show "n = n' \<and> r = r'" using e by (auto simp: replica_name_def)
qed simp

definition is_replicated :: "command \<Rightarrow> bool" where
  "is_replicated c = (cReplicas c > 0)"

lemma expand_names:
  "map cName (expand c) =
     (if is_replicated c then map (replica_name (cName c)) [0..<nat (cReplicas c)] else [cName c])"
  by (simp add: expand_def is_replicated_def replicaCommand_def comp_def)

lemma expand_names_distinct: "distinct (map cName (expand c))"
  by (simp add: expand_names distinct_map inj_on_def replica_name_inj)

text \<open>No plain command bears the name of a replica of another command.\<close>

definition no_name_clash :: "command list \<Rightarrow> bool" where
  "no_name_clash cs \<longleftrightarrow>
     (\<forall>c \<in> set cs. \<forall>d \<in> set cs. is_replicated c \<longrightarrow> \<not> is_replicated d \<longrightarrow>
        (\<forall>r < nat (cReplicas c). cName d \<noteq> replica_name (cName c) r))"

lemma expand_disjoint:
  assumes "cName c \<noteq> cName d"
    and "is_replicated c \<Longrightarrow> \<not> is_replicated d \<Longrightarrow> \<forall>r < nat (cReplicas c). cName d \<noteq> replica_name (cName c) r"
    and "is_replicated d \<Longrightarrow> \<not> is_replicated c \<Longrightarrow> \<forall>r < nat (cReplicas d). cName c \<noteq> replica_name (cName d) r"
  shows "set (map cName (expand c)) \<inter> set (map cName (expand d)) = {}"
  using assms
  by (cases "is_replicated c"; cases "is_replicated d") (fastforce simp: expand_names replica_name_inj)+

lemma launched_distinct:
  "distinct (map cName cs) \<Longrightarrow> no_name_clash cs \<Longrightarrow> distinct (map cName (concat (map expand cs)))"
proof (induction cs)
  case (Cons c cs)
  have "set (map cName (expand c)) \<inter> set (map cName (expand d)) = {}" if d: "d \<in> set cs" for d
  proof (rule expand_disjoint)
    show "cName c \<noteq> cName d" using Cons.prems(1) d by auto
  qed (use Cons.prems(2) d in \<open>auto simp: no_name_clash_def\<close>)
  moreover have "distinct (map cName (concat (map expand cs)))"
    using Cons by (simp add: no_name_clash_def)
  ultimately show ?case
    using expand_names_distinct [of c] by (fastforce simp del: map_map)
qed simp

lemma distinct_filter_names: "distinct (map cName cs) \<Longrightarrow> distinct (map cName (filter P cs))"
  by (induction cs) auto

text \<open>C23: process names. If the configured names are distinct and no plain command is named like
  a replica (\<^verbatim>\<open>name_r\<close>), all started processes have distinct names, which the shared state, keyed by
  name, relies on. Replicas of different commands never clash.\<close>

theorem launched_names_distinct:
  assumes "distinct (map cName commands)" and "no_name_clash commands"
  shows "distinct (commandList (NewSchedule commands skip wg))"
proof -
  have "no_name_clash (selected skip commands)"
    using assms(2) by (auto simp: no_name_clash_def selected_def)
  then have "distinct (map cName (concat (map expand (selected skip commands))))"
    using launched_distinct distinct_filter_names [OF assms(1)] by (simp add: selected_def)
  then show ?thesis
    by (simp add: NewSchedule_def Let_def schedule_loop_launch fold_launch)
qed

definition plain_command :: "proc_name \<Rightarrow> int \<Rightarrow> command" where
  "plain_command n k =
     \<lparr>cName = n, cEntrypoint = ''app'', cArgs = [], cEnvs = gempty, cEnvsFile = [],
      cRestartPolicy = [], cLogFormat = [], cDir = ''/srv'', cPromTarget = ''http://localhost/metrics'',
      cSysProcAttr = None, cReplicas = k, cMemoryLimitMB = 0, cReadiness = None, cPostStart = None\<rparr>"

theorem launched_names_distinct_witness:
  "distinct (commandList (NewSchedule [plain_command ''a'' 2, plain_command ''a_1'' 1, plain_command ''b'' 0] [] 1))"
proof (rule launched_names_distinct)
  show "distinct (map cName [plain_command ''a'' 2, plain_command ''a_1'' 1, plain_command ''b'' 0])"
    by (simp add: plain_command_def)
  show "no_name_clash [plain_command ''a'' 2, plain_command ''a_1'' 1, plain_command ''b'' 0]"
    by (simp add: no_name_clash_def is_replicated_def plain_command_def replica_name_def)
qed

text \<open>What replicas lose. A replica runs the same entrypoint, arguments, environment and probe as
  its command, under its own name, but never with the working directory, the post-start hook or the
  Prometheus target that were configured.\<close>

theorem replicas_drop_fields:
  "list_all (\<lambda>r. cEntrypoint r = cEntrypoint c \<and> cArgs r = cArgs c \<and> cEnvs r = cEnvs c \<and>
                 cReadiness r = cReadiness c \<and>
                 (if cReplicas c > 0 then cDir r = [] \<and> cPostStart r = None \<and> cPromTarget r = []
                  else r = c))
     (expand c)"
  by (auto simp: expand_def replicaCommand_def list_all_iff)

section \<open>Prometheus targets\<close>

text \<open>\<^verbatim>\<open>PromTargets\<close> of pkg/config/config.go reads the configuration, not the schedule.\<close>

fun PromTargets :: "command list \<Rightarrow> prom_target list" where
  "PromTargets [] = []"
| "PromTargets (c # cs) =
     (if cPromTarget c \<noteq> [] then
        \<lparr>targetName = cName c, targetUrl = cPromTarget c,
         ExtraLabels = [''process_name='' @ cName c]\<rparr> # PromTargets cs
      else PromTargets cs)"

lemma PromTargets_names: "t \<in> set (PromTargets cs) \<Longrightarrow> \<exists>c \<in> set cs. targetName t = cName c \<and> targetUrl t = cPromTarget c"
  by (induction cs) (auto split: if_splits)

text \<open>The metrics of a replicated command are never merged. As long as the shared state has
  entries for started processes only, and no started process happens to bear the command's own name,
  the Prometheus target of a replicated command is never among the ready ones.\<close>

theorem replicated_target_never_ready:
  assumes "state_wf s"
    and "\<forall>n. gget (statusMap s) n \<noteq> None \<longrightarrow> n \<in> set (commandList (NewSchedule commands skip wg))"
    and "cName c \<notin> set (commandList (NewSchedule commands skip wg))"
  shows "cName c \<notin> targetName ` set (GetReadyPromTargets (PromTargets commands) s)"
  using assms by (auto simp: GetReadyPromTargets_def Let_def gget_zero_def split: option.splits)

theorem replicated_target_never_ready_witness:
  "''a'' \<in> targetName ` set (PromTargets [plain_command ''a'' 1]) \<and>
   ''a'' \<notin> targetName ` set (GetReadyPromTargets (PromTargets [plain_command ''a'' 1])
                               (SetState ''a_0'' True (NewState [] False)))"
proof -
  have z: "show_nat 0 = ''0''" by code_simp
  have n: "commandList (NewSchedule [plain_command ''a'' 1] [[]] 1) = [''a_0'']"
    by (simp add: NewSchedule_def Let_def launch_def replicaCommand_def replica_name_def plain_command_def z)
  have wf: "state_wf (SetState ''a_0'' True (NewState [] False))"
    using state_wf_apply_op [of _ "OpState ''a_0'' True"] by simp
  show ?thesis
    using replicated_target_never_ready [OF wf, of "[plain_command ''a'' 1]" "[[]]" 1 "plain_command ''a'' 1"]
    by (simp add: n) (simp add: plain_command_def SetState_def NewState_def gmap_simps split: if_splits)
qed

section \<open>The list of skipped commands\<close>

text \<open>\<^verbatim>\<open>strings.Split(skipCommands, ",")\<close> in main.go.\<close>

definition skip_list :: "string \<Rightarrow> string list" where
  "skip_list skipCommands = Split skipCommands (CHR '','')"

text \<open>The skip flag. For names without commas, the flag skips exactly the listed names; the default
  (an empty flag) skips exactly the commands that have no name.\<close>

theorem skip_flag:
  assumes "list_all (\<lambda>n. CHR '','' \<notin> set n) names" and "names \<noteq> []"
  shows "launched (NewSchedule commands (skip_list (Join names '','')) wg) =
           concat (map expand (filter (\<lambda>c. cName c \<notin> set names) commands)) \<and>
         launched (NewSchedule commands (skip_list []) wg) =
           concat (map expand (filter (\<lambda>c. cName c \<noteq> []) commands))"
  using assms Split_Join [of names "CHR '',''"]
  by (simp add: launched_NewSchedule selected_def skip_list_def list_all_iff)

theorem skip_flag_witness:
  "map cName (launched (NewSchedule [plain_command ''a'' 0, plain_command ''b'' 0, plain_command ''c'' 0]
     (skip_list ''a,c'') 1)) = [''b'']"
  using skip_flag [of "[''a'', ''c'']" "[plain_command ''a'' 0, plain_command ''b'' 0, plain_command ''c'' 0]" 1]
  by (simp add: expand_def plain_command_def)

end
