(* ===== verification/HealthHttp.thy ===== *)
theory HealthHttp
  imports StateStore
begin

text \<open>
  The health server (\<^verbatim>\<open>HealthEndpoint\<close>, \<^verbatim>\<open>PromMergeHandler\<close>), the readiness file and the
  preemption watcher of pkg/process/health.go. A handler maps the request and the state to
  the answer and the new state; a loop that polls is a recursion over the list of what the
  successive polls see, and is undecided (\<open>None\<close>, or a final \<open>False\<close>) when the list ends
  before the loop does.
\<close>

section \<open>Requests and bodies\<close>

record http_request =
  reqMethod :: string
  reqQuery :: "(string, string list) gmap"

text \<open>\<^verbatim>\<open>url.Values\<close>: \<^verbatim>\<open>Get\<close> is the first value or the empty string, \<^verbatim>\<open>Has\<close> the presence of the key.\<close>

definition query_Get :: "http_request \<Rightarrow> string \<Rightarrow> string" where
  "query_Get r k = (case gget (reqQuery r) k of Some (v # _) \<Rightarrow> v | _ \<Rightarrow> [])"

definition query_Has :: "http_request \<Rightarrow> string \<Rightarrow> bool" where
  "query_Has r k = (gget (reqQuery r) k \<noteq> None)"

text \<open>What the handlers write, before it is serialised.\<close>

datatype body =
    BodyPid pid
  | BodyPids "(proc_name, pid) gmap"
  | BodyStatus "(proc_name, bool) gmap"
  | BodyAllBeats "(proc_name, gotime) gmap"
  | BodyBeat proc_name gotime
  | BodyMerged string

section \<open>Health endpoints\<close>

text \<open>
  The \<^verbatim>\<open>?wait\<close> loop answers at the first healthy poll, after one second of sleep for each
  unhealthy one; the result holds the number of sleeps.
\<close>

fun wait_loop :: "bool list \<Rightarrow> nat \<Rightarrow> (nat \<times> body response) option" where
  "wait_loop [] n = None"
| "wait_loop (health # polls) n =
     (if health then Some (n, WriteHeader 200 new_response) else wait_loop polls (Suc n))"

definition health_handler ::
  "(pstate \<Rightarrow> bool) \<Rightarrow> http_request \<Rightarrow> pstate list \<Rightarrow> (nat \<times> body response) option" where
  "health_handler check r polls =
     (if query_Has r ''wait'' then wait_loop (map check polls) 0
      else (case polls of [] \<Rightarrow> None
            | s # _ \<Rightarrow> Some (0, if \<not> check s then WriteHeader 503 new_response else new_response)))"

definition readiness_handler :: "http_request \<Rightarrow> pstate list \<Rightarrow> (nat \<times> body response) option" where
  "readiness_handler = health_handler Readiness"

definition liveness_handler :: "http_request \<Rightarrow> pstate list \<Rightarrow> (nat \<times> body response) option" where
  "liveness_handler = health_handler Liveness"

definition pidof_handler :: "http_request \<Rightarrow> pstate \<Rightarrow> body response" where
  "pidof_handler r s =
     (let name = query_Get r ''name'' in
      if name = [] then WriteHeader 400 new_response
      else (let p = GetPid name s in
            if p = 0 then WriteHeader 404 new_response
            else WriteBody (BodyPid p) (WriteHeader 200 new_response)))"

definition pids_handler :: "pstate \<Rightarrow> body response" where
  "pids_handler s =
     (let pids = GetPidsMap s in
      if length pids = 0 then WriteHeader 204 new_response
      else WriteBody (BodyPids pids) (WriteHeader 200 new_response))"

definition status_handler :: "pstate \<Rightarrow> body response" where
  "status_handler s =
     (let state = ProcessState s in
      if length state = 0 then WriteHeader 204 new_response
      else WriteBody (BodyStatus state) (WriteHeader 200 new_response))"

definition heartbeat_handler :: "http_request \<Rightarrow> gotime \<Rightarrow> pstate \<Rightarrow> body response \<times> pstate" where
  "heartbeat_handler r now s =
     (let name = query_Get r ''name'' in
      if name = [] then (WriteHeader 400 new_response, s)
      else if reqMethod r = ''GET'' then
        (if name = [] then
           (WriteBody (BodyAllBeats (GetAllHeartBeat s)) (WriteHeader 201 new_response), s)
         else (WriteBody (BodyBeat name (GetHeartBeat name s)) new_response, s))
      else if reqMethod r = ''PATCH'' then
        (WriteHeader 202 new_response, snd (SetHeartBeat name now s))
      else (new_response, s))"

definition defaultSocket :: string where "defaultSocket = '':8111''"

definition health_socket :: "environ \<Rightarrow> string" where
  "health_socket e =
     (let socket = Getenv e ''HEALTH_SOCKET'' in if socket = [] then defaultSocket else socket)"

text \<open>
  The Prometheus merge is a library: \<open>collect\<close> maps the ready targets to what the library
  holds after collecting, \<open>targets_of\<close> and \<open>render\<close> read that value.
\<close>

definition prommerge_handler ::
  "(prom_target list \<Rightarrow> 'pd) \<Rightarrow> ('pd \<Rightarrow> prom_target list) \<Rightarrow> ('pd \<Rightarrow> string) \<Rightarrow>
   prom_target list \<Rightarrow> pstate \<Rightarrow> body response" where
  "prommerge_handler collect targets_of render targets s =
     (let pd = collect (GetReadyPromTargets targets s) in
      if length (targets_of pd) = 0 then WriteHeader 204 new_response
      else WriteBody (BodyMerged (render pd)) new_response)"

section \<open>The readiness file\<close>

datatype file_action = FSleep duration | FWrite string

text \<open>
  One element of the list is one turn of the loop: the status map it reads, and whether the
  write of the file would succeed at that moment.
\<close>

fun CreateReadinessFile ::
  "string \<Rightarrow> ((proc_name, bool) gmap \<times> bool) list \<Rightarrow> file_action list \<times> bool" where
  "CreateReadinessFile file [] = ([], False)"
| "CreateReadinessFile file ((state, write_ok) # polls) =
     (if length state = 0 then
        (let (acts, done) = CreateReadinessFile file polls
         in (FSleep (100 * Millisecond) # acts, done))
      else if count_if (\<lambda>(n, r). \<not> r) state = 0 then
        (if \<not> write_ok then CreateReadinessFile file polls else ([FWrite file], True))
      else
        (let (acts, done) = CreateReadinessFile file polls
         in (FSleep (500 * Millisecond) # acts, done)))"

text \<open>Removing the file: \<open>fs\<close> is the set of existing paths, as a list.\<close>

definition RemoveReadinessFile :: "pstate \<Rightarrow> string list \<Rightarrow> string list" where
  "RemoveReadinessFile s fs = removeAll (ReadinessFile s) fs"

section \<open>Preemption\<close>

definition defaultMetadataURL :: string where
  "defaultMetadataURL =
     ''http://metadata.google.internal/computeMetadata/v1/instance/preempted?wait_for_change=true&timeout_sec=60''"

definition defaultEnvoyAdminURL :: string where
  "defaultEnvoyAdminURL = ''http://localhost:15000/drain_listeners''"

text \<open>\<^verbatim>\<open>NewState\<close> starts the checker for these values of HANDLE_PREEMPTION only.\<close>

definition handles_preemption :: "environ \<Rightarrow> bool" where
  "handles_preemption e =
     (let v = Getenv e ''HANDLE_PREEMPTION'' in v = ''true'' \<or> v = ''1'' \<or> v = ''enabled'')"

text \<open>
  The request is built once and cached in a package variable. \<open>new_request\<close> is
  \<^verbatim>\<open>http.NewRequest\<close>, which fails on an address it cannot parse.
\<close>

definition GetMetadataRequest ::
  "(string \<Rightarrow> 'req option) \<Rightarrow> environ \<Rightarrow> 'req option \<Rightarrow> 'req option \<times> 'req option" where
  "GetMetadataRequest new_request e cached =
     (case cached of
        Some r \<Rightarrow> (Some r, cached)
      | None \<Rightarrow>
          (let u = Getenv e ''METADATA_URL'';
               url = (if u = [] then defaultMetadataURL else u)
           in case new_request url of None \<Rightarrow> (None, None) | Some r \<Rightarrow> (Some r, Some r)))"

datatype meta_reply =
    NoRequest
  | DoError
  | ReadError
  | CloseError
  | Reply int string

datatype preempt_action = PSleep duration | PNotify | PPush

text \<open>One element of the list is one turn of the polling loop.\<close>

fun WaitPreemptionState :: "meta_reply list \<Rightarrow> preempt_action list \<times> bool" where
  "WaitPreemptionState [] = ([], False)"
| "WaitPreemptionState (NoRequest # rs) = WaitPreemptionState rs"
| "WaitPreemptionState (DoError # rs) =
     (let (acts, done) = WaitPreemptionState rs in (PSleep (500 * Millisecond) # acts, done))"
| "WaitPreemptionState (ReadError # rs) = WaitPreemptionState rs"
| "WaitPreemptionState (CloseError # rs) = WaitPreemptionState rs"
| "WaitPreemptionState (Reply code txt # rs) =
     (if code > 299 then WaitPreemptionState rs
      else if txt = ''TRUE'' then ([PNotify, PPush], True)
      else WaitPreemptionState rs)"

text \<open>What the checker starts with, and what its \<^verbatim>\<open>select\<close> receives and does about it.\<close>

datatype checker_event = CtxDone | PreemptedEvent

datatype checker_action = PushInitPreempted | StartWait | CancelPreempted | StartDrain

definition PreemptionChecker :: "checker_event \<Rightarrow> pstate \<Rightarrow> pstate \<times> checker_action list" where
  "PreemptionChecker ev s =
     (case ev of
        CtxDone \<Rightarrow> (s, [PushInitPreempted, StartWait])
      | PreemptedEvent \<Rightarrow>
          (SetPreempted s, [PushInitPreempted, StartWait, CancelPreempted, StartDrain]))"

text \<open>The request \<^verbatim>\<open>DrainEnvoyListeners\<close> sends, if any (its answer is only logged).\<close>

definition DrainEnvoyListeners ::
  "(string \<Rightarrow> 'req option) \<Rightarrow> environ \<Rightarrow> pstate \<Rightarrow> (string \<times> 'req) option" where
  "DrainEnvoyListeners new_request e s =
     (if \<not> envoyDrain s then None
      else (let u = Getenv e ''ENVOY_DRAIN_URL'';
                envoyAdminURL = (if u = [] then defaultEnvoyAdminURL else u)
            in case new_request envoyAdminURL of None \<Rightarrow> None | Some req \<Rightarrow> Some (''POST'', req)))"

section \<open>What the endpoints answer\<close>

lemma wait_loop_iff: "wait_loop polls n \<noteq> None \<longleftrightarrow> True \<in> set polls"
  by (induction polls n rule: wait_loop.induct) auto

text \<open>C33: readiness endpoint. For a well-formed state, \<^verbatim>\<open>GET /readiness\<close> without \<^verbatim>\<open>wait\<close>
  answers 503 exactly when the node is preempted or some process has the status unhealthy,
  and 200 otherwise; the liveness endpoint ignores the preemption.\<close>

theorem readiness_endpoint:
  assumes "state_wf s" and "\<not> query_Has r ''wait''"
  shows "(\<exists>a. readiness_handler r (s # later) = Some (0, a) \<and>
           respStatus a = (if Preempted s \<or> (\<exists>n. gget (statusMap s) n = Some False) then 503 else 200)) \<and>
         (\<exists>a. liveness_handler r (s # later) = Some (0, a) \<and>
           respStatus a = (if \<exists>n. gget (statusMap s) n = Some False then 503 else 200))"
  using assms
  by (auto simp: readiness_handler_def liveness_handler_def health_handler_def
      Readiness_Liveness Liveness_iff status_WriteHeader)

theorem readiness_endpoint_witness:
  "let s = SetState ''app'' False (NewState ''/tmp/started'' False);
       r = \<lparr>reqMethod = ''GET'', reqQuery = []\<rparr>
   in state_wf s \<and> \<not> query_Has r ''wait'' \<and>
      (\<exists>a. readiness_handler r [s] = Some (0, a) \<and> respStatus a = 503)"
proof -
  let ?s = "SetState ''app'' False (NewState ''/tmp/started'' False)"
  let ?r = "\<lparr>reqMethod = ''GET'', reqQuery = []\<rparr>"
  have wf: "state_wf ?s" using state_wf_apply_op [of "NewState ''/tmp/started'' False" "OpState ''app'' False"]
    by simp
  have q: "\<not> query_Has ?r ''wait''" by (simp add: query_Has_def gget_def)
  have "gget (statusMap ?s) ''app'' = Some False" by (simp add: SetState_def gmap_simps)
  then show ?thesis
    using readiness_endpoint [OF wf q, of "[]"] wf q by (auto simp: Let_def)
qed

text \<open>The waiting endpoints. With \<^verbatim>\<open>?wait\<close> the handler never answers anything but 200; it
  answers exactly when some poll is healthy, and after as many one-second sleeps as there are
  unhealthy polls before the first healthy one.\<close>

theorem readiness_wait_answers:
  assumes "query_Has r ''wait''"
  shows "readiness_handler r polls =
           (if \<exists>s \<in> set polls. Readiness s
            then Some (length (takeWhile (\<lambda>s. \<not> Readiness s) polls), WriteHeader 200 new_response)
            else None)"
proof -
  have "wait_loop (map Readiness polls) n =
          (if \<exists>s \<in> set polls. Readiness s
           then Some (n + length (takeWhile (\<lambda>s. \<not> Readiness s) polls), WriteHeader 200 new_response)
           else None)" for n
    by (induction polls arbitrary: n) auto
  with assms show ?thesis
    by (simp add: readiness_handler_def health_handler_def)
qed

theorem readiness_wait_answers_witness:
  "readiness_handler \<lparr>reqMethod = ''GET'', reqQuery = [(''wait'', [[]])]\<rparr>
     [SetState ''app'' False (NewState [] False), NewState [] False] =
   Some (1, WriteHeader 200 new_response)"
proof -
  have q: "query_Has \<lparr>reqMethod = ''GET'', reqQuery = [(''wait'', [[]])]\<rparr> ''wait''"
    by (simp add: query_Has_def gget_def)
  have "Readiness (NewState [] False)"
    by (simp add: Readiness_def NewState_def IsPreempted_def ProcessState_def copy_map_def gempty_def)
  moreover have "\<not> Readiness (SetState ''app'' False (NewState [] False))"
    by (simp add: Readiness_def NewState_def IsPreempted_def ProcessState_def copy_map_def
        gempty_def SetState_def gput_def)
  ultimately show ?thesis
    using readiness_wait_answers [OF q, of "[SetState ''app'' False (NewState [] False), NewState [] False]"]
    by simp
qed

text \<open>Heartbeat endpoint. A \<^verbatim>\<open>PATCH\<close> stores the time of the request and answers 202, a
  following \<^verbatim>\<open>GET\<close> for the same name answers 200 with that time, and other names keep their
  beats.\<close>

theorem heartbeat_roundtrip:
  assumes "query_Get r ''name'' = n" and "n \<noteq> []" and "reqMethod r = ''PATCH''"
    and "query_Get r' ''name'' = n'" and "n' \<noteq> []" and "reqMethod r' = ''GET''"
    and "heartbeat_handler r now s = (a, s')"
  shows "respStatus a = 202 \<and>
         heartbeat_handler r' later s' =
           (WriteBody (BodyBeat n' (if n' = n then now else GetHeartBeat n' s)) new_response, s')"
  using assms
  by (auto simp: heartbeat_handler_def Let_def status_WriteHeader SetHeartBeat_def
      GetHeartBeat_def gmap_simps)

theorem heartbeat_roundtrip_witness:
  "let r = \<lparr>reqMethod = ''PATCH'', reqQuery = [(''name'', [''app''])]\<rparr>;
       r' = \<lparr>reqMethod = ''GET'', reqQuery = [(''name'', [''app''])]\<rparr>;
       s' = snd (heartbeat_handler r 7 (NewState [] False))
   in heartbeat_handler r' 9 s' = (WriteBody (BodyBeat ''app'' 7) new_response, s')"
proof -
  let ?r = "\<lparr>reqMethod = ''PATCH'', reqQuery = [(''name'', [''app''])]\<rparr>"
  let ?r' = "\<lparr>reqMethod = ''GET'', reqQuery = [(''name'', [''app''])]\<rparr>"
  obtain a s' where h: "heartbeat_handler ?r 7 (NewState [] False) = (a, s')" by fastforce
  have n: "query_Get ?r ''name'' = ''app''" "query_Get ?r' ''name'' = ''app''"
    by (simp_all add: query_Get_def gget_def)
  show ?thesis
    using heartbeat_roundtrip [OF n(1) _ _ n(2) _ _ h, of 9] h by (simp add: Let_def)
qed

text \<open>The branch of \<^verbatim>\<open>/heartbeat\<close> that would list all heart beats cannot be reached: an
  empty name is refused before the method is looked at, so no request is answered 201 and no
  answer carries the list.\<close>

theorem heartbeat_list_unreachable:
  "respStatus (fst (heartbeat_handler r now s)) \<noteq> 201 \<and>
   BodyAllBeats m \<notin> set (respBody (fst (heartbeat_handler r now s)))"
  by (auto simp: heartbeat_handler_def Let_def status_WriteHeader)

lemma unhealthy_zero: "count_if (\<lambda>(n, r). \<not> r) state = 0 \<longleftrightarrow> all_ready state"
  by (induction state rule: all_ready.induct) auto

lemma CreateReadinessFile_Cons:
  "CreateReadinessFile path ((state, ok) # polls) =
     (if state = [] then
        (FSleep (100 * Millisecond) # fst (CreateReadinessFile path polls), snd (CreateReadinessFile path polls))
      else if all_ready state then
        (if ok then ([FWrite path], True) else CreateReadinessFile path polls)
      else
        (FSleep (500 * Millisecond) # fst (CreateReadinessFile path polls), snd (CreateReadinessFile path polls)))"
  by (simp add: unhealthy_zero case_prod_beta)

text \<open>C34: readiness file. The loop writes the readiness file, and stops, exactly at a poll that
  sees at least one entry in the status map and none that is unhealthy, and whose write succeeds; it never
  writes another path, and it writes at most once. A process without an entry (one that is not started,
  or that waits for its lock) is not waited for.\<close>

theorem readiness_file_written:
  "snd (CreateReadinessFile path polls) =
     list_ex (\<lambda>(state, ok). state \<noteq> [] \<and> list_all (\<lambda>(name, healthy). healthy) state \<and> ok) polls \<and>
   filter (\<lambda>a. \<exists>f. a = FWrite f) (fst (CreateReadinessFile path polls)) =
     (if snd (CreateReadinessFile path polls) then [FWrite path] else [])"
proof (induction polls)
  case (Cons p polls)
  obtain state ok where "p = (state, ok)" by (cases p)
  with Cons show ?case
    by (simp del: CreateReadinessFile.simps add: CreateReadinessFile_Cons all_ready_iff list_all_iff)
qed simp

text \<open>The readiness file comes early. One healthy process is enough for the file, although another one has
  not reported any state.\<close>

theorem readiness_file_before_all_started:
  assumes "n' \<noteq> n"
  shows "CreateReadinessFile path [(ProcessState (SetState n True (NewState file drain)), True)] = ([FWrite path], True) \<and>
         gget (ProcessState (SetState n True (NewState file drain))) n' = None"
proof -
  let ?s = "SetState n True (NewState file drain)"
  have "state_wf ?s"
    using state_wf_apply_op [where op = "OpState n True", OF state_wf_New] by simp
  then have "ProcessState ?s = [(n, True)]"
    by simp (simp add: SetState_def NewState_def gput_def gempty_def)
  then show ?thesis using assms by (simp add: gget_def)
qed

text \<open>Preemption watcher. The polling loop reports a preemption, with one notification
  followed by one metric, exactly when some reply with a status of at most 299 reads TRUE, whatever
  errors come before it.\<close>

theorem preemption_detected:
  "snd (WaitPreemptionState rs) = (\<exists>code. code \<le> 299 \<and> Reply code ''TRUE'' \<in> set rs) \<and>
   filter (\<lambda>a. a = PNotify \<or> a = PPush) (fst (WaitPreemptionState rs)) =
     (if snd (WaitPreemptionState rs) then [PNotify, PPush] else [])"
proof
  show "snd (WaitPreemptionState rs) = (\<exists>code. code \<le> 299 \<and> Reply code ''TRUE'' \<in> set rs)"
    by (induction rs rule: WaitPreemptionState.induct)
      (auto simp: not_less split: prod.splits)
  show "filter (\<lambda>a. a = PNotify \<or> a = PPush) (fst (WaitPreemptionState rs)) =
     (if snd (WaitPreemptionState rs) then [PNotify, PPush] else [])"
    by (induction rs rule: WaitPreemptionState.induct) (auto split: prod.splits)
qed

end
