(* ===== verification/Supervisor.thy ===== *)
theory Supervisor
  imports Schedule HealthHttp
begin

text \<open>
  The supervision of the processes as a concurrent program: the \<^verbatim>\<open>Run\<close> goroutines
  (pkg/process/process.go), the signal notifier (pkg/signals/signals.go), the scheduler, and the
  wait group of \<^verbatim>\<open>StartProcessWrapper\<close> (main.go). A step of the system is one access to
  shared data by one of them, or an event of the surroundings, so every interleaving of the real
  goroutines at the level of the shared data is an execution of the model.
\<close>

section \<open>Run\<close>

text \<open>
  The program points of \<^verbatim>\<open>Run\<close>: before each access to shared data. \<open>PcKilled1\<close> to
  \<open>PcKilled2\<close> are the reads of the two conditions after the child has ended, in the order in
  which Go evaluates them; at \<open>PcCancel\<close> the goroutine has slept for a second.
\<close>

datatype run_pc =
    PcInit | PcRemove | PcAcquire | PcStart | PcSetPid | PcSetCancel | PcWait
  | PcKilled1 | PcShut1 | PcShut2 | PcKilled2 | PcReset | PcCancel | PcShut3 | PcUnwind | PcDone

text \<open>
  A goroutine: the process name, whether it takes a shared lock first, the child and context of
  the current round, and the number of deferred \<^verbatim>\<open>wg.Done\<close> calls (a restart is a deferred call
  of \<^verbatim>\<open>Run\<close>, so they pile up). \<open>rnLate\<close> records for the theorems how many children were started
  after the shutdown began; no step reads it.
\<close>

record run =
  rnName :: proc_name
  rnLock :: bool
  rnPc :: run_pc
  rnPid :: pid
  rnCtx :: ctx_id
  rnPending :: nat
  rnLate :: nat

text \<open>What a step of \<^verbatim>\<open>Run\<close> may meet: its envs file, the lock server, the operating system.\<close>

record run_input =
  inEnvsOk :: bool
  inLease :: bool
  inStart :: bool
  inPid :: pid
  inNow :: gotime

section \<open>The system\<close>

text \<open>The program points of \<^verbatim>\<open>Notify\<close> inside the handling of a signal.\<close>

datatype notify_pc =
    NIdle
  | NTermCancel | NTermFile | NTermShutdown | NTermPids | NTermSend "pid list" | NTermKill
  | NIntEvent | NIntFile | NIntCancel

datatype signal = SIGTERM | SIGQUIT | SIGINT | SIGUSR1 | SIGUSR2

datatype wrapper_exit = ExitOk | ExitFatal | ExitPanic

record sys =
  syState :: pstate
  syLabels :: label_sources
  syServer :: server
  syFiles :: "string list"
  syProbes :: probe_store
  syCtxDone :: bool
  syWg :: int
  syAlive :: "pid set"
  syCancelled :: "ctx_id set"
  syNextCtx :: ctx_id
  syTodo :: "command list"
  sySchedDone :: bool
  syMainAdded :: bool
  syRuns :: "run list"
  syNotify :: notify_pc
  sySent :: "pid list"
  syExit :: "wrapper_exit option"

definition uses_lock :: "probe_store \<Rightarrow> command \<Rightarrow> bool" where
  "uses_lock ps c =
     (case cReadiness c of None \<Rightarrow> False | Some r \<Rightarrow> pKeepSharedLock (ps r) \<noteq> None)"

definition new_run :: "probe_store \<Rightarrow> command \<Rightarrow> run" where
  "new_run ps c =
     \<lparr>rnName = cName c, rnLock = uses_lock ps c, rnPc = PcInit, rnPid = 0, rnCtx = 0,
      rnPending = 1, rnLate = 0\<rparr>"

definition wg_add :: "sys \<Rightarrow> sys" where
  "wg_add s = s\<lparr>syWg := syWg s + 1\<rparr>"

text \<open>A wait group below zero panics.\<close>

definition wg_done :: "sys \<Rightarrow> sys" where
  "wg_done s =
     (let n = syWg s - 1
      in s\<lparr>syWg := n, syExit := (if n < 0 then Some ExitPanic else syExit s)\<rparr>)"

text \<open>
  One step of a \<^verbatim>\<open>Run\<close> goroutine; \<open>None\<close> when it is blocked. Starting a command whose context is
  cancelled fails, and a failed start ends the wrapper (\<^verbatim>\<open>defer log.Fatalf\<close>).
\<close>

definition run_step :: "run_input \<Rightarrow> run \<Rightarrow> sys \<Rightarrow> (run \<times> sys) option" where
  "run_step inp r s =
     (case rnPc r of
        PcInit \<Rightarrow>
          if inEnvsOk inp then Some (r\<lparr>rnPc := (if rnLock r then PcRemove else PcStart)\<rparr>, s)
          else Some (r, s\<lparr>syExit := Some ExitFatal\<rparr>)
      | PcRemove \<Rightarrow>
          Some (r\<lparr>rnPc := PcAcquire\<rparr>, s\<lparr>syState := RemoveState (rnName r) (syState s)\<rparr>)
      | PcAcquire \<Rightarrow>
          if syCtxDone s then Some (r\<lparr>rnPc := PcStart\<rparr>, s)
          else if inLease inp then Some (r\<lparr>rnPc := PcStart\<rparr>, s)
          else Some (r, s)
      | PcStart \<Rightarrow>
          if syCtxDone s \<or> \<not> inStart inp then Some (r, s\<lparr>syExit := Some ExitFatal\<rparr>)
          else if inPid inp \<in> syAlive s \<or> inPid inp \<le> 0 then None
          else Some (r\<lparr>rnPc := PcSetPid, rnPid := inPid inp, rnCtx := syNextCtx s,
                       rnLate := rnLate r + (if Shutdown (syState s) then 1 else 0)\<rparr>,
                     s\<lparr>syAlive := insert (inPid inp) (syAlive s), syNextCtx := Suc (syNextCtx s)\<rparr>)
      | PcSetPid \<Rightarrow>
          Some (r\<lparr>rnPc := PcSetCancel\<rparr>,
                s\<lparr>syState := SetPid (rnName r) (rnPid r) (inNow inp) (syState s)\<rparr>)
      | PcSetCancel \<Rightarrow>
          Some (r\<lparr>rnPc := PcWait\<rparr>,
                s\<lparr>syState := SetCancelRoutine (rnName r) (rnCtx r) (syState s)\<rparr>)
      | PcWait \<Rightarrow>
          if rnPid r \<in> syAlive s then None else Some (r\<lparr>rnPc := PcKilled1\<rparr>, s)
      | PcKilled1 \<Rightarrow>
          Some (r\<lparr>rnPc := (if \<not> IsKilled (rnName r) (syState s) then PcShut1 else PcShut2)\<rparr>, s)
      | PcShut1 \<Rightarrow>
          if IsShutdown (syState s)
          then Some (r\<lparr>rnPc := PcUnwind\<rparr>, s\<lparr>syCancelled := insert (rnCtx r) (syCancelled s)\<rparr>)
          else Some (r\<lparr>rnPc := PcShut2\<rparr>, s)
      | PcShut2 \<Rightarrow>
          Some (r\<lparr>rnPc := (if \<not> IsShutdown (syState s) then PcReset else PcKilled2)\<rparr>, s)
      | PcKilled2 \<Rightarrow>
          Some (r\<lparr>rnPc := (if IsKilled (rnName r) (syState s) then PcReset else PcUnwind)\<rparr>, s)
      | PcReset \<Rightarrow>
          Some (r\<lparr>rnPc := PcCancel\<rparr>, s\<lparr>syState := SetKillState (rnName r) False (syState s)\<rparr>)
      | PcCancel \<Rightarrow>
          Some (r\<lparr>rnPc := PcShut3\<rparr>, s\<lparr>syCancelled := insert (rnCtx r) (syCancelled s)\<rparr>)
      | PcShut3 \<Rightarrow>
          if \<not> IsShutdown (syState s)
          then Some (r\<lparr>rnPc := PcInit, rnPending := Suc (rnPending r)\<rparr>, wg_add s)
          else Some (r\<lparr>rnPc := PcUnwind\<rparr>, s)
      | PcUnwind \<Rightarrow>
          Some (r\<lparr>rnPc := (if rnPending r \<le> 1 then PcDone else PcUnwind),
                   rnPending := rnPending r - 1\<rparr>, wg_done s)
      | PcDone \<Rightarrow> None)"

section \<open>The notifier\<close>

definition term_labels :: "string \<Rightarrow> labels" where
  "term_labels sig = gput ''signal'' sig gempty"

definition push_termination :: "string \<Rightarrow> sys \<Rightarrow> sys" where
  "push_termination sig s =
     s\<lparr>syServer := PushTerminationEvent (syLabels s) (term_labels sig) (syServer s)\<rparr>"

text \<open>The signal is taken from the channel when the previous one has been handled.\<close>

definition Notify_receive :: "signal \<Rightarrow> sys \<Rightarrow> sys option" where
  "Notify_receive sig s =
     (if syNotify s \<noteq> NIdle then None
      else (case sig of
              SIGTERM \<Rightarrow> Some ((push_termination ''termination'' s)\<lparr>syNotify := NTermCancel\<rparr>)
            | SIGQUIT \<Rightarrow> Some ((push_termination ''termination'' s)\<lparr>syNotify := NTermCancel\<rparr>)
            | SIGINT \<Rightarrow> Some (s\<lparr>syState := SetShutdown (syState s), syNotify := NIntEvent\<rparr>)
            | SIGUSR1 \<Rightarrow> Some (push_termination ''usr'' s)
            | SIGUSR2 \<Rightarrow> Some (push_termination ''usr'' s)))"

text \<open>
  The rest of the handling. \<open>NTermPids\<close> to \<open>NTermSend\<close> is \<^verbatim>\<open>TerminateProcess\<close>, \<open>NTermKill\<close> the
  deferred \<^verbatim>\<open>ProcessKiller\<close> after the graceful period.
\<close>

definition Notify_step :: "sys \<Rightarrow> sys option" where
  "Notify_step s =
     (case syNotify s of
        NIdle \<Rightarrow> None
      | NTermCancel \<Rightarrow>
          Some (s\<lparr>syCancelled := syCancelled s \<union> set (CancelRoutines (syState s)), syNotify := NTermFile\<rparr>)
      | NTermFile \<Rightarrow>
          Some (s\<lparr>syFiles := RemoveReadinessFile (syState s) (syFiles s), syNotify := NTermShutdown\<rparr>)
      | NTermShutdown \<Rightarrow> Some (s\<lparr>syState := SetShutdown (syState s), syNotify := NTermPids\<rparr>)
      | NTermPids \<Rightarrow> Some (s\<lparr>syNotify := NTermSend (GetPids (syState s))\<rparr>)
      | NTermSend [] \<Rightarrow> Some (s\<lparr>syNotify := NTermKill\<rparr>)
      | NTermSend (p # ps) \<Rightarrow> Some (s\<lparr>sySent := sySent s @ [p], syNotify := NTermSend ps\<rparr>)
      | NTermKill \<Rightarrow> Some ((push_termination ''kill'' s)\<lparr>syCtxDone := True, syNotify := NIdle\<rparr>)
      | NIntEvent \<Rightarrow> Some ((push_termination ''interrupt'' s)\<lparr>syNotify := NIntFile\<rparr>)
      | NIntFile \<Rightarrow>
          Some (s\<lparr>syFiles := RemoveReadinessFile (syState s) (syFiles s), syNotify := NIntCancel\<rparr>)
      | NIntCancel \<Rightarrow> Some (s\<lparr>syCtxDone := True, syNotify := NIdle\<rparr>))"

section \<open>Scheduler, main and surroundings\<close>

text \<open>One iteration of \<^verbatim>\<open>NewSchedule\<close>, or its final \<^verbatim>\<open>wg.Done\<close>.\<close>

definition Schedule_step :: "sys \<Rightarrow> sys option" where
  "Schedule_step s =
     (case syTodo s of
        c # cs \<Rightarrow> Some ((wg_add s)\<lparr>syTodo := cs, syRuns := syRuns s @ [new_run (syProbes s) c]\<rparr>)
      | [] \<Rightarrow> if sySchedDone s then None else Some (wg_done (s\<lparr>sySchedDone := True\<rparr>)))"

text \<open>\<^verbatim>\<open>wg.Add(1)\<close> and \<^verbatim>\<open>wg.Wait()\<close> of \<^verbatim>\<open>StartProcessWrapper\<close>.\<close>

definition Main_add :: "sys \<Rightarrow> sys option" where
  "Main_add s = (if syMainAdded s then None else Some ((wg_add s)\<lparr>syMainAdded := True\<rparr>))"

definition Main_wait :: "sys \<Rightarrow> sys option" where
  "Main_wait s =
     (if syMainAdded s \<and> syWg s = 0 then Some (s\<lparr>syExit := Some ExitOk\<rparr>) else None)"

text \<open>
  The writes of the health checkers, the stats collectors and the health server to the shared
  state: anything but the shutdown flag, the pids and the cancel functions, and a kill flag is only
  ever raised.
\<close>

definition other_op :: "state_op \<Rightarrow> bool" where
  "other_op op =
     (case op of OpState _ _ \<Rightarrow> True | OpRemove _ \<Rightarrow> True | OpBeat _ _ \<Rightarrow> True | OpPreempted \<Rightarrow> True
      | OpKill _ b \<Rightarrow> b | _ \<Rightarrow> False)"

datatype label =
    LRun nat run_input
  | LChildExit pid
  | LState state_op
  | LCancelRoutine ctx_id
  | LPodCompleted
  | LSignal signal
  | LNotify
  | LSchedule
  | LMainAdd
  | LMainWait

definition sys_step :: "label \<Rightarrow> sys \<Rightarrow> sys option" where
  "sys_step l s =
     (if syExit s \<noteq> None then None
      else (case l of
              LRun i inp \<Rightarrow>
                if i < length (syRuns s) then
                  (case run_step inp (syRuns s ! i) s of
                     None \<Rightarrow> None
                   | Some (r, s') \<Rightarrow> Some (s'\<lparr>syRuns := (syRuns s)[i := r]\<rparr>))
                else None
            | LChildExit p \<Rightarrow> Some (s\<lparr>syAlive := syAlive s - {p}\<rparr>)
            | LState op \<Rightarrow> if other_op op then Some (s\<lparr>syState := apply_op op (syState s)\<rparr>) else None
            | LCancelRoutine c \<Rightarrow> Some (s\<lparr>syCancelled := insert c (syCancelled s)\<rparr>)
            | LPodCompleted \<Rightarrow> Some (s\<lparr>syCtxDone := True\<rparr>)
            | LSignal sig \<Rightarrow> Notify_receive sig s
            | LNotify \<Rightarrow> Notify_step s
            | LSchedule \<Rightarrow> Schedule_step s
            | LMainAdd \<Rightarrow> Main_add s
            | LMainWait \<Rightarrow> Main_wait s))"

fun sys_exec :: "label list \<Rightarrow> sys \<Rightarrow> sys option" where
  "sys_exec [] s = Some s"
| "sys_exec (l # ls) s = (case sys_step l s of None \<Rightarrow> None | Some s' \<Rightarrow> sys_exec ls s')"

definition init_sys ::
  "pstate \<Rightarrow> label_sources \<Rightarrow> server \<Rightarrow> string list \<Rightarrow> probe_store \<Rightarrow> command list \<Rightarrow> sys" where
  "init_sys st ls m files ps commands =
     \<lparr>syState = st, syLabels = ls, syServer = m, syFiles = files, syProbes = ps, syCtxDone = False,
      syWg = 0, syAlive = {}, syCancelled = {}, syNextCtx = 1, syTodo = commands, sySchedDone = False,
      syMainAdded = False, syRuns = [], syNotify = NIdle, sySent = [], syExit = None\<rparr>"

text \<open>The state in which \<^verbatim>\<open>StartProcessWrapper\<close> starts its goroutines.\<close>

definition start_sys ::
  "string \<Rightarrow> bool \<Rightarrow> label_sources \<Rightarrow> server \<Rightarrow> string list \<Rightarrow> probe_store \<Rightarrow> command list \<Rightarrow>
   string list \<Rightarrow> sys" where
  "start_sys file drain ls m files ps commands skip =
     init_sys (NewState file drain) ls m files ps (launched (NewSchedule commands skip 0))"

text \<open>The states an execution can reach from \<open>s0\<close>.\<close>

inductive reachable :: "sys \<Rightarrow> sys \<Rightarrow> bool" for s0 where
  reach_start: "reachable s0 s0"
| reach_step: "reachable s0 s \<Longrightarrow> sys_step l s = Some s' \<Longrightarrow> reachable s0 s'"

end
