(* ===== verification/SupervisorProps.thy ===== *)
theory SupervisorProps
  imports Supervisor
begin

text \<open>
  Theorems on the supervision: the wait group, what a normal exit means, what happens after the
  shutdown began, the termination signals, and the end of a pod.
\<close>

interpretation sup: execution sys_step sys_exec
  by unfold_locales simp_all

lemma reachable_exec: "reachable s0 s \<longleftrightarrow> (\<exists>ls. sys_exec ls s0 = Some s)"
proof
  show "reachable s0 s \<Longrightarrow> \<exists>ls. sys_exec ls s0 = Some s"
  proof (induction rule: reachable.induct)
    case reach_start
    have "sys_exec [] s0 = Some s0" by simp
    then show ?case by blast
  next
    case (reach_step s l s')
    then obtain ls where "sys_exec ls s0 = Some s" by blast
    then have "sys_exec (ls @ [l]) s0 = Some s'" using reach_step by (simp add: sup.exec_append)
    then show ?case by blast
  qed
  show "\<exists>ls. sys_exec ls s0 = Some s \<Longrightarrow> reachable s0 s"
    by (elim exE, erule sup.exec_invariant) (auto intro: reachable.intros)
qed

lemma reachable_case:
  "case sys_exec labels s0 of None \<Rightarrow> False | Some s \<Rightarrow> P s \<Longrightarrow> \<exists>s. reachable s0 s \<and> P s"
  by (auto simp: reachable_exec split: option.splits)

section \<open>A concrete wrapper\<close>

text \<open>One command without probes, its start, and its end after a \<^verbatim>\<open>SIGTERM\<close>.\<close>

lemmas exec_defs = sys_step_def run_step_def Notify_receive_def Notify_step_def Schedule_step_def
  Main_add_def Main_wait_def push_termination_def wg_add_def wg_done_def new_run_def uses_lock_def
  start_sys_def init_sys_def launched_NewSchedule selected_def expand_def NewState_def
  SetShutdown_def SetPid_def SetCancelRoutine_def SetKillState_def IsShutdown_def IsKilled_def
  CancelRoutines_def RemoveReadinessFile_def GetPids_def PushTerminationEvent_def
  plain_command_def gmap_simps Let_def gempty_def gput_def gget_zero_def gget_def numeral_eq_Suc

definition good_input :: "pid \<Rightarrow> run_input" where
  "good_input p = \<lparr>inEnvsOk = True, inLease = True, inStart = True, inPid = p, inNow = 0\<rparr>"

definition demo_start :: "command list \<Rightarrow> sys" where
  "demo_start cs = start_sys ''/tmp/started'' False quiet_labels None [] (\<lambda>_. empty_probe) cs []"

abbreviation one_command :: sys where
  "one_command \<equiv> demo_start [plain_command ''a'' 0]"

definition start_a :: "label list" where
  "start_a = [LMainAdd, LSchedule, LSchedule] @ replicate 4 (LRun 0 (good_input 7))"

definition term_a :: "label list" where
  "term_a = [LSignal SIGTERM] @ replicate 7 LNotify"

definition end_a :: "label list" where
  "end_a = [LChildExit 7] @ replicate 4 (LRun 0 (good_input 0))"

lemmas demo_defs = demo_start_def start_a_def term_a_def end_a_def good_input_def

section \<open>Steps by kind\<close>

text \<open>What a step of \<^verbatim>\<open>Run\<close> leaves alone.\<close>

lemma run_step_frame:
  assumes "run_step inp r s = Some (r', s')"
  shows "syTodo s' = syTodo s" "sySchedDone s' = sySchedDone s" "syMainAdded s' = syMainAdded s"
    "syRuns s' = syRuns s" "syNotify s' = syNotify s" "sySent s' = sySent s" "syCtxDone s' = syCtxDone s"
    "Shutdown (syState s') = Shutdown (syState s)" "rnName r' = rnName r" "rnLock r' = rnLock r"
    "syProbes s' = syProbes s"
  using assms
  by (cases "rnPc r"; auto simp: run_step_def wg_add_def wg_done_def Let_def RemoveState_def SetPid_def
      SetCancelRoutine_def SetKillState_def split: if_splits)+

lemma other_op_Shutdown [simp]:
  "other_op op \<Longrightarrow> Shutdown (apply_op op st) = Shutdown st"
  by (cases op) (auto simp: other_op_def state_op_defs)

lemmas sys_kind_defs = Notify_receive_def Notify_step_def Schedule_step_def Main_add_def Main_wait_def
  push_termination_def wg_add_def wg_done_def

text \<open>Every step that is not one of a goroutine running \<^verbatim>\<open>Run\<close>, or of the scheduler, keeps the goroutines.\<close>

lemma sys_step_cases:
  assumes "sys_step l s = Some s'"
  obtains (run) i inp r t where "l = LRun i inp" "i < length (syRuns s)"
      "run_step inp (syRuns s ! i) s = Some (r, t)" "s' = t\<lparr>syRuns := (syRuns s)[i := r]\<rparr>"
  | (sched) c cs where "l = LSchedule" "syTodo s = c # cs"
      "s' = (wg_add s)\<lparr>syTodo := cs, syRuns := syRuns s @ [new_run (syProbes s) c]\<rparr>"
  | (other) "syRuns s' = syRuns s" "syTodo s' = syTodo s" "syProbes s' = syProbes s"
      "syAlive s' \<subseteq> syAlive s" "Shutdown (syState s) \<longrightarrow> Shutdown (syState s')"
      "syWg s' - of_bool (syMainAdded s') + of_bool (sySchedDone s') =
         syWg s - of_bool (syMainAdded s) + of_bool (sySchedDone s)"
      "sySchedDone s' \<longrightarrow> sySchedDone s \<or> syTodo s = []"
      "\<forall>i inp. l \<noteq> LRun i inp"
proof (cases l)
  case (LRun i inp)
  then show ?thesis using assms run by (auto simp: sys_step_def split: if_splits option.splits)
next
  case LSchedule
  show ?thesis
  proof (cases "syTodo s")
    case Nil
    then show ?thesis using assms LSchedule other
      by (auto simp: sys_step_def Schedule_step_def wg_done_def Let_def split: if_splits)
  next
    case (Cons c cs)
    then show ?thesis using assms LSchedule sched
      by (auto simp: sys_step_def Schedule_step_def split: if_splits)
  qed
qed (use assms other in \<open>auto simp: sys_step_def sys_kind_defs SetShutdown_def Let_def
  split: if_splits notify_pc.splits signal.splits list.splits\<close>)

section \<open>The wait group\<close>

definition total_pending :: "sys \<Rightarrow> nat" where
  "total_pending s = sum_list (map rnPending (syRuns s))"

definition wg_inv :: "sys \<Rightarrow> bool" where
  "wg_inv s \<longleftrightarrow>
     syWg s = of_bool (syMainAdded s) - of_bool (sySchedDone s) + int (total_pending s) \<and>
     list_all (\<lambda>r. rnPc r = PcDone \<longleftrightarrow> rnPending r = 0) (syRuns s) \<and>
     (sySchedDone s \<longrightarrow> syTodo s = [])"

lemma run_step_pending:
  assumes "run_step inp r s = Some (r', s')" "rnPc r = PcDone \<longleftrightarrow> rnPending r = 0"
  shows "syWg s' - syWg s = int (rnPending r') - int (rnPending r)"
    "rnPc r' = PcDone \<longleftrightarrow> rnPending r' = 0"
  using assms
  by (auto simp: run_step_def wg_add_def wg_done_def Let_def split: run_pc.splits if_splits)

lemma total_pending_update:
  "i < length (syRuns s) \<Longrightarrow>
   int (sum_list (map rnPending ((syRuns s)[i := r]))) =
     int (total_pending s) - int (rnPending (syRuns s ! i)) + int (rnPending r)"
proof -
  assume i: "i < length (syRuns s)"
  have "rnPending (syRuns s ! i) \<le> total_pending s"
    unfolding total_pending_def using i by (intro member_le_sum_list) auto
  then show ?thesis
    using i by (simp add: map_update sum_list_update total_pending_def)
qed

lemma list_all_update: "list_all P xs \<Longrightarrow> P x \<Longrightarrow> list_all P (xs[i := x])"
  by (auto simp: list_all_iff dest: set_update_subset_insert [THEN subsetD])

lemma wg_inv_step:
  assumes "wg_inv s" "sys_step l s = Some s'"
  shows "wg_inv s'"
  using assms(2)
proof (cases rule: sys_step_cases)
  case (run i inp r t)
  have b: "rnPc (syRuns s ! i) = PcDone \<longleftrightarrow> rnPending (syRuns s ! i) = 0"
    using assms(1) run(2) by (auto simp: wg_inv_def list_all_iff)
  note p = run_step_pending [OF run(3) b]
  have "int (total_pending s') = int (total_pending s) - int (rnPending (syRuns s ! i)) + int (rnPending r)"
    using total_pending_update [OF run(2)] run(4) by (simp add: total_pending_def)
  then show ?thesis
    using assms(1) p run_step_frame [OF run(3)]
      list_all_update [of "\<lambda>r. rnPc r = PcDone \<longleftrightarrow> rnPending r = 0" "syRuns s" r i]
    by (simp add: wg_inv_def run(4))
next
  case (sched c cs)
  then show ?thesis using assms(1)
    by (auto simp: wg_inv_def total_pending_def wg_add_def new_run_def)
next
  case other
  then show ?thesis using assms
    by (auto simp: wg_inv_def total_pending_def)
qed

lemma wg_inv_start: "wg_inv (start_sys file drain ls m files ps commands skip)"
  by (simp add: wg_inv_def start_sys_def init_sys_def total_pending_def)

section \<open>Invariants of the goroutines\<close>

text \<open>
  What each goroutine satisfies, given whether the shutdown has begun: the conditions are
  preserved by its own steps, and by the shutdown.
\<close>

lemma runs_inv_step:
  assumes "list_all (P (Shutdown (syState s))) (syRuns s)" "sys_step l s = Some s'"
    and mono: "\<And>r. P False r \<Longrightarrow> P True r"
    and step: "\<And>inp r r' t. run_step inp r s = Some (r', t) \<Longrightarrow> P (Shutdown (syState s)) r \<Longrightarrow>
                 P (Shutdown (syState s)) r'"
    and new: "\<And>c. P (Shutdown (syState s)) (new_run (syProbes s) c)"
  shows "list_all (P (Shutdown (syState s'))) (syRuns s')"
  using assms(2)
proof (cases rule: sys_step_cases)
  case (run i inp r t)
  have "P (Shutdown (syState s)) (syRuns s ! i)" using assms(1) run(2) by (auto simp: list_all_iff)
  then have "P (Shutdown (syState s)) r" using step run(3) by blast
  then show ?thesis using assms(1) run run_step_frame [OF run(3)] by (simp add: list_all_update)
next
  case (sched c cs)
  then show ?thesis using assms(1) new by (simp add: wg_add_def)
next
  case other
  then show ?thesis using assms(1) mono
    by (cases "Shutdown (syState s)"; cases "Shutdown (syState s')") (auto simp: list_all_iff)
qed

definition before_start :: "run_pc \<Rightarrow> bool" where
  "before_start pc \<longleftrightarrow> pc \<in> {PcInit, PcRemove, PcAcquire, PcStart}"

text \<open>
  A goroutine only ends, and only counts down, once the shutdown has begun; it starts at most one
  child after that, and does not come back to starting one.
\<close>

definition run_ok :: "bool \<Rightarrow> run \<Rightarrow> bool" where
  "run_ok shutdown r \<longleftrightarrow>
     (rnPc r \<in> {PcKilled2, PcUnwind, PcDone} \<longrightarrow> shutdown) \<and>
     (rnLate r \<noteq> 0 \<longrightarrow> shutdown \<and> rnLate r = 1 \<and> \<not> before_start (rnPc r))"

lemma run_ok_step:
  "run_step inp r s = Some (r', t) \<Longrightarrow> run_ok (Shutdown (syState s)) r \<Longrightarrow> run_ok (Shutdown (syState s)) r'"
  by (cases "rnPc r") (auto simp: run_step_def run_ok_def before_start_def IsShutdown_def split: if_splits)

lemma reachable_run_ok:
  "reachable (start_sys file drain ls m files ps commands skip) s \<Longrightarrow>
   list_all (run_ok (Shutdown (syState s))) (syRuns s)"
proof (induction rule: reachable.induct)
  case (reach_step s l s')
  then show ?case
    by (rule_tac runs_inv_step) (auto simp: run_ok_step, auto simp: run_ok_def new_run_def)
qed (simp add: start_sys_def init_sys_def)

lemma reachable_wg_inv:
  "reachable (start_sys file drain ls m files ps commands skip) s \<Longrightarrow> wg_inv s"
  by (induction rule: reachable.induct) (auto intro: wg_inv_start wg_inv_step)

text \<open>Every living child belongs to a goroutine that has not yet seen it end.\<close>

definition holds_child :: "run \<Rightarrow> bool" where
  "holds_child r \<longleftrightarrow> rnPc r \<in> {PcSetPid, PcSetCancel, PcWait}"

definition children_inv :: "sys \<Rightarrow> bool" where
  "children_inv s \<longleftrightarrow>
     (\<forall>p \<in> syAlive s. \<exists>i < length (syRuns s). holds_child (syRuns s ! i) \<and> rnPid (syRuns s ! i) = p)"

lemma run_step_child:
  assumes "run_step inp r s = Some (r', t)"
  shows "syAlive t = (if rnPc r = PcStart \<and> holds_child r' then insert (rnPid r') (syAlive s) else syAlive s)"
    "holds_child r \<Longrightarrow> (holds_child r' \<and> rnPid r' = rnPid r) \<or> rnPid r \<notin> syAlive s"
  using assms
  by (auto simp: run_step_def holds_child_def wg_add_def wg_done_def Let_def
      split: run_pc.splits if_splits)

lemma children_inv_step:
  assumes "children_inv s" "sys_step l s = Some s'"
  shows "children_inv s'"
  using assms(2)
proof (cases rule: sys_step_cases)
  case (run i inp r t)
  note c = run_step_child [OF run(3)]
  have "\<exists>j < length (syRuns s'). holds_child (syRuns s' ! j) \<and> rnPid (syRuns s' ! j) = p"
    if p: "p \<in> syAlive s'" for p
  proof (cases "p \<in> syAlive s")
    case True
    then obtain j where j: "j < length (syRuns s)" "holds_child (syRuns s ! j)" "rnPid (syRuns s ! j) = p"
      using assms(1) by (auto simp: children_inv_def)
    show ?thesis
    proof (cases "j = i")
      case True
      then show ?thesis using c(2) j run(2,4) \<open>p \<in> syAlive s\<close> by (intro exI [of _ i]) auto
    next
      case False
      then show ?thesis using j run(4) by (intro exI [of _ j]) auto
    qed
  next
    case False
    then have "holds_child r \<and> rnPid r = p" using p c(1) run(4) by (auto split: if_splits)
    then show ?thesis using run(2,4) by (intro exI [of _ i]) auto
  qed
  then show ?thesis by (simp add: children_inv_def)
next
  case (sched c cs)
  then show ?thesis using assms(1)
    by (fastforce simp: children_inv_def wg_add_def nth_append)
next
  case other
  then show ?thesis using assms(1) by (auto simp: children_inv_def)
qed

lemma reachable_children:
  "reachable (start_sys file drain ls m files ps commands skip) s \<Longrightarrow> children_inv s"
proof (induction rule: reachable.induct)
  case reach_start
  show ?case by (simp add: children_inv_def start_sys_def init_sys_def)
qed (rule children_inv_step)

section \<open>A normal exit\<close>

lemma run_step_exit:
  "run_step inp r s = Some (r', t) \<Longrightarrow> syExit s = None \<Longrightarrow>
   syExit t \<noteq> Some ExitOk \<and> (syExit t = Some ExitPanic \<longrightarrow> syWg t < 0)"
  by (auto simp: run_step_def wg_add_def wg_done_def Let_def split: run_pc.splits if_splits)

lemma step_exit:
  assumes "sys_step l s = Some s'"
  shows "syExit s = None \<and> (syExit s' = Some ExitOk \<longrightarrow> syMainAdded s' \<and> syWg s' = 0) \<and>
         (syExit s' = Some ExitPanic \<longrightarrow> syWg s' < 0)"
proof (cases l)
  case (LRun i inp)
  then show ?thesis using assms run_step_exit
    by (fastforce simp: sys_step_def split: if_splits option.splits)
next
  case LNotify
  then show ?thesis using assms
    by (auto simp: sys_step_def Notify_step_def push_termination_def
        split: if_splits notify_pc.splits list.splits)
qed (use assms in \<open>auto simp: sys_step_def Notify_receive_def Schedule_step_def Main_add_def Main_wait_def
  push_termination_def wg_add_def wg_done_def Let_def split: if_splits signal.splits list.splits\<close>)

lemma reachable_exit:
  assumes "reachable s0 s" "syExit s0 = None"
  shows "(syExit s = Some ExitOk \<longrightarrow> syMainAdded s \<and> syWg s = 0) \<and>
         (syExit s = Some ExitPanic \<longrightarrow> syWg s < 0)"
  using assms by (induction rule: reachable.induct) (use step_exit in auto)

lemma reachable_names:
  "reachable (start_sys file drain ls m files ps commands skip) s \<Longrightarrow>
   map rnName (syRuns s) @ map cName (syTodo s) = commandList (NewSchedule commands skip 0)"
proof (induction rule: reachable.induct)
  case reach_start
  show ?case
    by (simp add: start_sys_def init_sys_def NewSchedule_def Let_def schedule_loop_launch fold_launch)
next
  case (reach_step s l s')
  from reach_step(2) show ?case
  proof (cases rule: sys_step_cases)
    case (run i inp r t)
    have "map rnName (syRuns s') = map rnName (syRuns s)"
      using run run_step_frame(9) [OF run(3)] list_update_id [of "map rnName (syRuns s)" i]
      by (simp add: map_update)
    then show ?thesis using reach_step run run_step_frame [OF run(3)] by simp
  qed (use reach_step in \<open>auto simp: wg_add_def new_run_def\<close>)
qed

lemma all_done_iff:
  "wg_inv s \<Longrightarrow> total_pending s = 0 \<longleftrightarrow> list_all (\<lambda>r. rnPc r = PcDone) (syRuns s)"
  by (auto simp: wg_inv_def total_pending_def list_all_iff)

text \<open>C1: a normal exit is complete. When \<^verbatim>\<open>main\<close> passes the wait group, every scheduled command was
  started, every goroutine has ended, no child process is left, and, unless there was nothing to
  run, the shutdown had begun: commands are restarted until then.\<close>

theorem normal_exit_complete:
  assumes "reachable (start_sys file drain ls m files ps commands skip) s" and "syExit s = Some ExitOk"
  shows "map rnName (syRuns s) = commandList (NewSchedule commands skip 0) \<and>
         list_all (\<lambda>r. rnPc r = PcDone) (syRuns s) \<and> syAlive s = {} \<and>
         (syRuns s = [] \<or> Shutdown (syState s))"
proof -
  have none: "syExit (start_sys file drain ls m files ps commands skip) = None"
    by (simp add: start_sys_def init_sys_def)
  have wg: "wg_inv s" using reachable_wg_inv [OF assms(1)] .
  have e: "syMainAdded s" "syWg s = 0" using reachable_exit [OF assms(1) none] assms(2) by auto
  then have "sySchedDone s \<and> total_pending s = 0" using wg by (auto simp: wg_inv_def of_bool_def split: if_splits)
  then have d: "syTodo s = []" "list_all (\<lambda>r. rnPc r = PcDone) (syRuns s)"
    using wg all_done_iff [OF wg] by (auto simp: wg_inv_def)
  moreover have "syAlive s = {}"
    using reachable_children [OF assms(1)] d(2)
    by (fastforce simp: children_inv_def holds_child_def list_all_length)
  moreover have "syRuns s = [] \<or> Shutdown (syState s)"
    using reachable_run_ok [OF assms(1)] d(2) by (cases "syRuns s") (auto simp: run_ok_def)
  ultimately show ?thesis using reachable_names [OF assms(1)] by simp
qed

theorem normal_exit_complete_witness:
  "\<exists>s. reachable one_command s \<and> syExit s = Some ExitOk \<and> syAlive s = {} \<and>
       (\<exists>r. syRuns s = [r] \<and> rnPc r = PcDone) \<and> Shutdown (syState s)"
proof -
  have "case sys_exec (start_a @ term_a @ end_a @ [LMainWait]) one_command of None \<Rightarrow> False
        | Some s \<Rightarrow> syExit s = Some ExitOk"
    by (simp add: demo_defs exec_defs)
  then obtain s where s: "reachable one_command s" "syExit s = Some ExitOk"
    by (auto dest: reachable_case)
  have c: "commandList (NewSchedule [plain_command ''a'' 0] [] 0) = [''a'']"
    by (simp add: NewSchedule_def launch_def plain_command_def)
  from normal_exit_complete [OF s(1) [unfolded demo_start_def] s(2)] s c show ?thesis
    by (auto simp: map_eq_Cons_conv)
qed

text \<open>C24: when the wait group goes below zero. The wrapper panics there only if the scheduler has
  started all its commands and called \<^verbatim>\<open>Done\<close> before the \<^verbatim>\<open>Add\<close> of \<^verbatim>\<open>main\<close>, every goroutine has ended and no
  deferred \<^verbatim>\<open>Done\<close> is pending; so either nothing was started, or the shutdown has begun.\<close>

theorem waitgroup_panic_cause:
  assumes "reachable (start_sys file drain ls m files ps commands skip) s" and "syExit s = Some ExitPanic"
  shows "\<not> syMainAdded s \<and> sySchedDone s \<and> syTodo s = [] \<and> total_pending s = 0 \<and>
         list_all (\<lambda>r. rnPc r = PcDone) (syRuns s) \<and> (syRuns s = [] \<or> Shutdown (syState s))"
proof -
  have none: "syExit (start_sys file drain ls m files ps commands skip) = None"
    by (simp add: start_sys_def init_sys_def)
  have wg: "wg_inv s" using reachable_wg_inv [OF assms(1)] .
  have "syWg s < 0" using reachable_exit [OF assms(1) none] assms(2) by auto
  then have e: "\<not> syMainAdded s" "sySchedDone s" "total_pending s = 0"
    using wg by (auto simp: wg_inv_def of_bool_def split: if_splits)
  then have d: "list_all (\<lambda>r. rnPc r = PcDone) (syRuns s)" using all_done_iff [OF wg] by simp
  then have "syRuns s = [] \<or> Shutdown (syState s)"
    using reachable_run_ok [OF assms(1)] by (cases "syRuns s") (auto simp: run_ok_def)
  moreover have "syTodo s = []" using wg e(2) by (simp add: wg_inv_def)
  ultimately show ?thesis using e d by blast
qed

theorem waitgroup_panic_cause_witness:
  "\<exists>s. reachable (demo_start []) s \<and> syExit s = Some ExitPanic \<and> \<not> syMainAdded s \<and> syRuns s = []"
proof -
  have "case sys_exec [LSchedule] (demo_start []) of None \<Rightarrow> False
        | Some s \<Rightarrow> syExit s = Some ExitPanic \<and> syRuns s = []"
    by (simp add: demo_defs exec_defs)
  then obtain s where s: "reachable (demo_start []) s" "syExit s = Some ExitPanic" "syRuns s = []"
    by (blast dest: reachable_case)
  from waitgroup_panic_cause [OF s(1) [unfolded demo_start_def] s(2)] s show ?thesis by blast
qed

text \<open>C13: no restarts after the shutdown began. Each goroutine starts at most one more child (the one
  it had already decided on), and none that has seen its child end starts another.\<close>

theorem one_late_start:
  assumes "reachable (start_sys file drain ls m files ps commands skip) s"
  shows "list_all (\<lambda>r. rnLate r \<le> 1 \<and> (if Shutdown (syState s) then True else rnLate r = 0)) (syRuns s)"
  using reachable_run_ok [OF assms] by (auto simp: list_all_iff run_ok_def)

section \<open>The shutdown terminates\<close>

text \<open>The steps a goroutine may still make once the shutdown has begun.\<close>

fun pc_rank :: "run_pc \<Rightarrow> nat" where
  "pc_rank PcInit = 15" | "pc_rank PcRemove = 14" | "pc_rank PcAcquire = 13" | "pc_rank PcStart = 12"
| "pc_rank PcSetPid = 11" | "pc_rank PcSetCancel = 10" | "pc_rank PcWait = 9" | "pc_rank PcKilled1 = 8"
| "pc_rank PcShut1 = 7" | "pc_rank PcShut2 = 6" | "pc_rank PcKilled2 = 5" | "pc_rank PcReset = 4"
| "pc_rank PcCancel = 3" | "pc_rank PcShut3 = 2" | "pc_rank PcUnwind = 1" | "pc_rank PcDone = 0"

definition run_rank :: "run \<Rightarrow> nat" where
  "run_rank r = pc_rank (rnPc r) + rnPending r"

lemma run_step_rank:
  assumes "run_step inp r s = Some (r', t)" "Shutdown (syState s)" "syExit s = None"
  shows "run_rank r' < run_rank r \<or>
    (r' = r \<and> (syExit t \<noteq> None \<or> (rnPc r = PcAcquire \<and> \<not> syCtxDone s \<and> \<not> inLease inp)))"
  using assms
  by (auto simp: run_step_def run_rank_def IsShutdown_def split: run_pc.splits if_splits)

definition is_run :: "nat \<Rightarrow> label \<Rightarrow> bool" where
  "is_run i l = (case l of LRun j inp \<Rightarrow> i = j | _ \<Rightarrow> False)"

text \<open>The label is a request of goroutine \<open>i\<close> for the shared lock that is not granted.\<close>

definition refused :: "nat \<Rightarrow> label \<Rightarrow> sys \<Rightarrow> bool" where
  "refused i l s =
     (case l of
        LRun j inp \<Rightarrow> i = j \<and> rnPc (syRuns s ! i) = PcAcquire \<and> \<not> syCtxDone s \<and> \<not> inLease inp
      | _ \<Rightarrow> False)"

fun refusals :: "nat \<Rightarrow> label list \<Rightarrow> sys \<Rightarrow> nat" where
  "refusals i [] s = 0"
| "refusals i (l # ls) s =
     (if refused i l s then 1 else 0) + (case sys_step l s of None \<Rightarrow> 0 | Some s' \<Rightarrow> refusals i ls s')"

definition exit_rank :: "nat \<Rightarrow> sys \<Rightarrow> nat" where
  "exit_rank i s = run_rank (syRuns s ! i) + (if syExit s = None then 1 else 0)"

lemma exit_rank_step:
  assumes "sys_step l s = Some s'" "Shutdown (syState s)" "i < length (syRuns s)"
  shows "(Shutdown (syState s') \<and> i < length (syRuns s')) \<and>
         exit_rank i s' + (if is_run i l then 1 else 0) \<le> exit_rank i s + (if refused i l s then 1 else 0)"
proof -
  have none: "syExit s = None" using step_exit [OF assms(1)] by simp
  from assms(1) show ?thesis
  proof (cases rule: sys_step_cases)
    case (run j inp r t)
    have "run_rank r < run_rank (syRuns s ! j) \<or>
        (r = syRuns s ! j \<and> (syExit t \<noteq> None \<or>
          (rnPc (syRuns s ! j) = PcAcquire \<and> \<not> syCtxDone s \<and> \<not> inLease inp)))"
      using run_step_rank [OF run(3) assms(2) none] .
    then show ?thesis
      using run assms(2,3) none run_step_frame [OF run(3)]
      by (cases "j = i") (auto simp: exit_rank_def is_run_def refused_def)
  next
    case (sched c cs)
    then show ?thesis using assms none
      by (simp add: exit_rank_def wg_add_def nth_append is_run_def)
  next
    case other
    then show ?thesis using assms none
      by (auto simp: exit_rank_def is_run_def split: label.splits)
  qed
qed

lemma exit_rank_exec:
  "sys_exec labels s = Some s' \<Longrightarrow> Shutdown (syState s) \<Longrightarrow> i < length (syRuns s) \<Longrightarrow>
   length (filter (is_run i) labels) + exit_rank i s' \<le> exit_rank i s + refusals i labels s"
proof (induction labels arbitrary: s)
  case (Cons l labels)
  then obtain s1 where s1: "sys_step l s = Some s1" "sys_exec labels s1 = Some s'"
    by (auto split: option.splits)
  note step = exit_rank_step [OF s1(1) Cons.prems(2,3)]
  have "length (filter (is_run i) labels) + exit_rank i s' \<le> exit_rank i s1 + refusals i labels s1"
    using Cons.IH [OF s1(2)] step by blast
  then show ?case using step s1(1) by (cases "is_run i l"; cases "refused i l s") simp_all
qed simp

text \<open>C2: the shutdown is not held up. Once the shutdown has begun, a goroutine makes at most sixteen further
  steps, plus one for each deferred \<^verbatim>\<open>Done\<close> it has pending (its start and its restarts), plus one for each
  time it asks for its shared lock and is refused, however the others are interleaved with it.\<close>

theorem shutdown_bounded:
  assumes "sys_exec labels s = Some s'" and "Shutdown (syState s)" and "i < length (syRuns s)"
  shows "length (filter (is_run i) labels) \<le> 16 + rnPending (syRuns s ! i) + refusals i labels s"
proof -
  have "length (filter (is_run i) labels) + exit_rank i s' \<le> exit_rank i s + refusals i labels s"
    using exit_rank_exec [OF assms] .
  moreover have "exit_rank i s \<le> run_rank (syRuns s ! i) + 1" by (simp add: exit_rank_def)
  moreover have "pc_rank pc \<le> 15" for pc by (cases pc) simp_all
  then have "run_rank (syRuns s ! i) \<le> 15 + rnPending (syRuns s ! i)" by (simp add: run_rank_def)
  ultimately show ?thesis by linarith
qed

theorem shutdown_bounded_witness:
  "case sys_exec (start_a @ term_a) one_command of None \<Rightarrow> False
   | Some s \<Rightarrow> Shutdown (syState s) \<and> sys_exec end_a s \<noteq> None \<and>
               length (filter (is_run 0) end_a) \<le> 17"
proof -
  have e: "case sys_exec (start_a @ term_a) one_command of None \<Rightarrow> False
     | Some s \<Rightarrow> Shutdown (syState s) \<and> sys_exec end_a s \<noteq> None \<and> length (syRuns s) = 1 \<and>
                 rnPending (syRuns s ! 0) = 1"
    by (simp add: demo_defs exec_defs)
  then obtain s s' where s: "sys_exec (start_a @ term_a) one_command = Some s" "Shutdown (syState s)"
      "sys_exec end_a s = Some s'" "length (syRuns s) = 1" "rnPending (syRuns s ! 0) = 1"
    by (auto split: option.splits)
  have "\<not> refused 0 l u" if "l \<in> set end_a" for l u
    using that by (auto simp: end_a_def refused_def good_input_def numeral_eq_Suc)
  then have "refusals 0 ls u = 0" if "set ls \<subseteq> set end_a" for ls u
    using that by (induction ls arbitrary: u) (auto split: option.split)
  then have "length (filter (is_run 0) end_a) \<le> 17"
    using shutdown_bounded [OF s(3) s(2), of 0] s(4,5) by simp
  with s show ?thesis by simp
qed

text \<open>A goroutine is still before its start, or will be: with a cancelled context it can only fail.\<close>

definition start_ahead :: "sys \<Rightarrow> bool" where
  "start_ahead s \<longleftrightarrow> syTodo s \<noteq> [] \<or> \<not> list_all (\<lambda>r. \<not> before_start (rnPc r)) (syRuns s)"

lemma sys_step_ctx:
  assumes "sys_step l s = Some s'" "syCtxDone s"
  shows "syCtxDone s'"
  using assms(1)
proof (cases rule: sys_step_cases)
  case (run i inp r t)
  then show ?thesis using assms(2) run_step_frame [OF run(3)] by simp
next
  case other
  then show ?thesis using assms
    by (cases l) (auto simp: sys_step_def sys_kind_defs Let_def
        split: if_splits notify_pc.splits signal.splits list.splits)
qed (use assms in \<open>simp add: wg_add_def\<close>)

lemma doomed_step:
  assumes "sys_step l s = Some s'" "syCtxDone s" "start_ahead s"
  shows "start_ahead s'"
  using assms(1)
proof (cases rule: sys_step_cases)
  case (run i inp r t)
  have keep: "before_start (rnPc (syRuns s ! i)) \<Longrightarrow> before_start (rnPc r)"
    using run(3) assms(2) by (auto simp: run_step_def before_start_def split: if_splits)
  have "\<exists>j < length (syRuns s'). before_start (rnPc (syRuns s' ! j))"
    if "j < length (syRuns s)" "before_start (rnPc (syRuns s ! j))" for j
    using that keep run(2,4) by (intro exI [of _ j]) (auto simp: nth_list_update)
  then show ?thesis
    using assms(3) run(4) run_step_frame [OF run(3)] by (auto simp: start_ahead_def list_all_length)
next
  case (sched c cs)
  then show ?thesis by (simp add: start_ahead_def wg_add_def new_run_def before_start_def)
next
  case other
  then show ?thesis using assms(3) by (simp add: start_ahead_def)
qed

lemma doomed_exec:
  assumes "sys_exec labels s = Some s'" "wg_inv s" "syCtxDone s" "start_ahead s" "syExit s = None"
  shows "syExit s' \<noteq> Some ExitOk"
proof -
  have "wg_inv s' \<and> syCtxDone s' \<and> start_ahead s' \<and> syExit s' \<noteq> Some ExitOk"
  proof (rule sup.exec_invariant [OF assms(1)])
    fix l u u' assume u: "wg_inv u \<and> syCtxDone u \<and> start_ahead u \<and> syExit u \<noteq> Some ExitOk" "sys_step l u = Some u'"
    have wg: "wg_inv u'" and ahead: "start_ahead u'"
      using wg_inv_step doomed_step u by blast+
    have "syExit u' \<noteq> Some ExitOk"
    proof
      assume "syExit u' = Some ExitOk"
      then have "syMainAdded u'" "syWg u' = 0" using step_exit [OF u(2)] by auto
      then have "total_pending u' = 0" "syTodo u' = []"
        using wg by (auto simp: wg_inv_def of_bool_def split: if_splits)
      then show False using ahead all_done_iff [OF wg]
        by (auto simp: start_ahead_def before_start_def list_all_iff)
    qed
    then show "wg_inv u' \<and> syCtxDone u' \<and> start_ahead u' \<and> syExit u' \<noteq> Some ExitOk"
      using wg ahead sys_step_ctx u by blast
  qed (use assms in auto)
  then show ?thesis by blast
qed

definition can_finish :: "sys \<Rightarrow> bool" where
  "can_finish s \<longleftrightarrow> Shutdown (syState s) \<and> syExit s = None \<and> (syCtxDone s \<longrightarrow> \<not> start_ahead s)"

definition finish_rank :: "sys \<Rightarrow> nat" where
  "finish_rank s = sum_list (map run_rank (syRuns s)) + 17 * length (syTodo s) +
     of_bool (\<not> syMainAdded s) + of_bool (\<not> sySchedDone s)"

lemma fresh_pid:
  assumes "children_inv s"
  obtains p where "0 < p" "p \<notin> syAlive s"
proof -
  have "syAlive s \<subseteq> rnPid ` set (syRuns s)" using assms by (auto simp: children_inv_def)
  then have "finite (syAlive s)" by (rule finite_subset) simp
  then have "q \<le> Max (insert 0 (syAlive s))" if "q \<in> insert 0 (syAlive s)" for q
    using that by (intro Max_ge) simp_all
  then have "Max (insert 0 (syAlive s)) + 1 \<notin> syAlive s" "0 < Max (insert 0 (syAlive s)) + 1"
    by force+
  then show thesis using that by blast
qed

text \<open>A goroutine whose child is gone goes on, if it may.\<close>

lemma finish_run:
  assumes "can_finish s" "syWg s > 0" "i < length (syRuns s)" "rnPc (syRuns s ! i) \<noteq> PcDone"
    and "rnPid (syRuns s ! i) \<notin> syAlive s" "0 < p" "p \<notin> syAlive s"
  shows "\<exists>s'. sys_step (LRun i (good_input p)) s = Some s' \<and> can_finish s' \<and> finish_rank s' < finish_rank s"
proof -
  let ?r = "syRuns s ! i"
  have b: "before_start (rnPc ?r) \<Longrightarrow> \<not> syCtxDone s"
    using assms(1,3) by (auto simp: can_finish_def start_ahead_def list_all_length)
  obtain r t where st: "run_step (good_input p) ?r s = Some (r, t)"
    using assms b
    by (cases "rnPc ?r") (auto simp: run_step_def before_start_def can_finish_def good_input_def IsShutdown_def)
  have t: "syExit t = None" "\<not> before_start (rnPc ?r) \<Longrightarrow> \<not> before_start (rnPc r)"
    using st assms(1,2,4) b
    by (auto simp: run_step_def can_finish_def before_start_def good_input_def wg_add_def wg_done_def
        Let_def IsShutdown_def split: run_pc.splits if_splits)
  note frame = run_step_frame [OF st]
  have "run_rank r < run_rank ?r"
    using run_step_rank [OF st] assms(1) t(1) by (auto simp: can_finish_def good_input_def)
  moreover have "run_rank ?r \<le> sum_list (map run_rank (syRuns s))"
    using assms(3) by (intro member_le_sum_list) auto
  ultimately have "sum_list (map run_rank ((syRuns s)[i := r])) < sum_list (map run_rank (syRuns s))"
    using assms(3) by (simp add: map_update sum_list_update)
  moreover have "\<not> start_ahead (t\<lparr>syRuns := (syRuns s)[i := r]\<rparr>)" if "syCtxDone s"
    using that assms(1,3) t(2) frame(1)
    by (auto simp: can_finish_def start_ahead_def list_all_length nth_list_update)
  ultimately show ?thesis
    using st t(1) assms(1,3) frame
    by (intro exI [of _ "t\<lparr>syRuns := (syRuns s)[i := r]\<rparr>"])
      (simp add: sys_step_def can_finish_def finish_rank_def)
qed

lemma finish_step:
  assumes "can_finish s" "wg_inv s" "children_inv s"
    and "\<not> (syMainAdded s \<and> sySchedDone s \<and> list_all (\<lambda>r. rnPc r = PcDone) (syRuns s))"
  shows "\<exists>labels s'. sys_exec labels s = Some s' \<and> can_finish s' \<and> finish_rank s' < finish_rank s"
proof -
  have none: "syExit s = None" using assms(1) by (simp add: can_finish_def)
  consider "\<not> syMainAdded s" | c cs where "syMainAdded s" "syTodo s = c # cs"
    | "syMainAdded s" "syTodo s = []" "\<not> sySchedDone s"
    | i where "syMainAdded s" "i < length (syRuns s)" "rnPc (syRuns s ! i) \<noteq> PcDone"
    using assms(4) by (cases "syTodo s") (auto simp: list_all_length)
  then show ?thesis
  proof cases
    case 1
    then have "sys_exec [LMainAdd] s = Some ((wg_add s)\<lparr>syMainAdded := True\<rparr>)"
      using none by (simp add: sys_step_def Main_add_def)
    moreover have "can_finish ((wg_add s)\<lparr>syMainAdded := True\<rparr>)" "finish_rank ((wg_add s)\<lparr>syMainAdded := True\<rparr>) < finish_rank s"
      using assms(1) 1 by (simp_all add: can_finish_def start_ahead_def finish_rank_def wg_add_def)
    ultimately show ?thesis by blast
  next
    case 2
    let ?s = "(wg_add s)\<lparr>syTodo := cs, syRuns := syRuns s @ [new_run (syProbes s) c]\<rparr>"
    have "sys_exec [LSchedule] s = Some ?s" using none 2 by (simp add: sys_step_def Schedule_step_def)
    moreover have "can_finish ?s" "finish_rank ?s < finish_rank s"
      using assms(1) 2 by (simp_all add: can_finish_def start_ahead_def finish_rank_def wg_add_def new_run_def run_rank_def)
    ultimately show ?thesis by blast
  next
    case 3
    let ?s = "wg_done (s\<lparr>sySchedDone := True\<rparr>)"
    have "sys_exec [LSchedule] s = Some ?s" using none 3 by (simp add: sys_step_def Schedule_step_def)
    moreover have "syWg s \<ge> 1" using assms(2) 3 by (simp add: wg_inv_def)
    then have "can_finish ?s" "finish_rank ?s < finish_rank s"
      using assms(1) 3 by (simp_all add: can_finish_def start_ahead_def finish_rank_def wg_done_def Let_def)
    ultimately show ?thesis by blast
  next
    case (4 i)
    obtain p where p: "0 < p" "p \<notin> syAlive s" using fresh_pid [OF assms(3)] by blast
    let ?s = "s\<lparr>syAlive := syAlive s - {rnPid (syRuns s ! i)}\<rparr>"
    have "rnPending (syRuns s ! i) \<noteq> 0" using assms(2) 4(2,3) by (auto simp: wg_inv_def list_all_length)
    moreover have "rnPending (syRuns s ! i) \<le> total_pending s"
      unfolding total_pending_def using 4(2) by (intro member_le_sum_list) auto
    ultimately have wg: "syWg ?s > 0" using assms(2) 4(1) by (simp add: wg_inv_def of_bool_def)
    have cf: "can_finish ?s" "finish_rank ?s = finish_rank s"
      using assms(1) by (simp_all add: can_finish_def start_ahead_def finish_rank_def)
    obtain s' where "sys_step (LRun i (good_input p)) ?s = Some s'" "can_finish s'" "finish_rank s' < finish_rank ?s"
      using finish_run [OF cf(1) wg, of i p] 4(2,3) p by auto
    moreover have "sys_step (LChildExit (rnPid (syRuns s ! i))) s = Some ?s" using none by (simp add: sys_step_def)
    ultimately have "sys_exec [LChildExit (rnPid (syRuns s ! i)), LRun i (good_input p)] s = Some s' \<and>
        can_finish s' \<and> finish_rank s' < finish_rank s"
      using cf(2) by simp
    then show ?thesis by blast
  qed
qed

lemma finish_exec:
  "can_finish s \<Longrightarrow> wg_inv s \<Longrightarrow> children_inv s \<Longrightarrow>
   \<exists>labels s'. sys_exec labels s = Some s' \<and> syExit s' = Some ExitOk"
proof (induction "finish_rank s" arbitrary: s rule: less_induct)
  case less
  show ?case
  proof (cases "syMainAdded s \<and> sySchedDone s \<and> list_all (\<lambda>r. rnPc r = PcDone) (syRuns s)")
    case True
    then have "syWg s = 0" using all_done_iff [OF less.prems(2)] less.prems(2) by (simp add: wg_inv_def)
    then have "sys_exec [LMainWait] s = Some (s\<lparr>syExit := Some ExitOk\<rparr>)"
      using True less.prems(1) by (simp add: sys_step_def Main_wait_def can_finish_def)
    then show ?thesis by (intro exI [of _ "[LMainWait]"] exI [of _ "s\<lparr>syExit := Some ExitOk\<rparr>"]) simp
  next
    case False
    obtain ls s1 where s1: "sys_exec ls s = Some s1" "can_finish s1" "finish_rank s1 < finish_rank s"
      using finish_step [OF less.prems False] by blast
    have "wg_inv s1 \<and> children_inv s1"
      by (rule sup.exec_invariant [OF s1(1)]) (use less.prems wg_inv_step children_inv_step in blast)+
    then obtain labels s' where "sys_exec labels s1 = Some s'" "syExit s' = Some ExitOk"
      using less.hyps [OF s1(3,2)] by blast
    then have "sys_exec (ls @ labels) s = Some s' \<and> syExit s' = Some ExitOk"
      using s1(1) by (simp add: sup.exec_append)
    then show ?thesis by blast
  qed
qed

text \<open>C3: a graceful shutdown completes. Once the shutdown has begun, the wrapper can run on to a normal exit,
  however many children are still to be waited for or started (nothing is deadlocked and the wait group
  balances); unless its context is already cancelled while a command is still to be scheduled or a
  goroutine is before the start of a child: from then on every execution ends otherwise.\<close>

theorem graceful_shutdown_completes:
  assumes "reachable (start_sys file drain ls m files ps commands skip) s"
    and "Shutdown (syState s)" and "syExit s = None"
  shows "(\<exists>labels s'. sys_exec labels s = Some s' \<and> syExit s' = Some ExitOk) \<longleftrightarrow>
    (if syCtxDone s
     then syTodo s = [] \<and>
          list_all (\<lambda>r. rnPc r \<noteq> PcInit \<and> rnPc r \<noteq> PcRemove \<and> rnPc r \<noteq> PcAcquire \<and> rnPc r \<noteq> PcStart) (syRuns s)
     else True)"
proof -
  note inv = reachable_wg_inv [OF assms(1)] reachable_children [OF assms(1)]
  have ahead: "start_ahead s \<longleftrightarrow> \<not> (syTodo s = [] \<and>
      list_all (\<lambda>r. rnPc r \<noteq> PcInit \<and> rnPc r \<noteq> PcRemove \<and> rnPc r \<noteq> PcAcquire \<and> rnPc r \<noteq> PcStart) (syRuns s))"
    by (auto simp: start_ahead_def before_start_def list_all_iff)
  show ?thesis
  proof (cases "syCtxDone s \<and> start_ahead s")
    case True
    then show ?thesis using doomed_exec [OF _ inv(1)] assms(3) ahead by auto
  next
    case False
    then have "can_finish s" using assms(2,3) by (auto simp: can_finish_def)
    from finish_exec [OF this inv] show ?thesis using False ahead by auto
  qed
qed

theorem graceful_shutdown_completes_witness:
  "(\<exists>s labels s'. reachable one_command s \<and> rnPc (syRuns s ! 0) = PcWait \<and> 7 \<in> syAlive s \<and>
     sys_exec labels s = Some s' \<and> syExit s' = Some ExitOk) \<and>
   (\<exists>s. reachable one_command s \<and> Shutdown (syState s) \<and> rnPc (syRuns s ! 0) = PcInit \<and>
     \<not> (\<exists>labels s'. sys_exec labels s = Some s' \<and> syExit s' = Some ExitOk))"
proof
  have "case sys_exec (start_a @ term_a) one_command of None \<Rightarrow> False
        | Some s \<Rightarrow> Shutdown (syState s) \<and> syExit s = None \<and> syTodo s = [] \<and> 7 \<in> syAlive s \<and>
            (\<exists>r. syRuns s = [r] \<and> rnPc r = PcWait)"
    by (simp add: demo_defs exec_defs)
  then obtain s where s: "reachable one_command s" "Shutdown (syState s)" "syExit s = None" "syTodo s = []"
      "7 \<in> syAlive s" "\<exists>r. syRuns s = [r] \<and> rnPc r = PcWait"
    by (blast dest: reachable_case)
  have "\<exists>labels s'. sys_exec labels s = Some s' \<and> syExit s' = Some ExitOk"
    by (rule graceful_shutdown_completes [OF s(1) [unfolded demo_start_def] s(2,3), THEN iffD2])
      (use s in auto)
  with s show "\<exists>s labels s'. reachable one_command s \<and> rnPc (syRuns s ! 0) = PcWait \<and> 7 \<in> syAlive s \<and>
      sys_exec labels s = Some s' \<and> syExit s' = Some ExitOk"
    by (intro exI [of _ s]) auto
next
  have "case sys_exec (start_a @ [LChildExit 7] @ replicate 7 (LRun 0 (good_input 8)) @ term_a) one_command of None \<Rightarrow> False
        | Some s \<Rightarrow> Shutdown (syState s) \<and> syExit s = None \<and> syCtxDone s \<and> (\<exists>r. syRuns s = [r] \<and> rnPc r = PcInit)"
    by (simp add: demo_defs exec_defs)
  then obtain s where s: "reachable one_command s" "Shutdown (syState s)" "syExit s = None" "syCtxDone s"
      "\<exists>r. syRuns s = [r] \<and> rnPc r = PcInit"
    by (blast dest: reachable_case)
  from graceful_shutdown_completes [OF s(1) [unfolded demo_start_def] s(2,3)] s
  show "\<exists>s. reachable one_command s \<and> Shutdown (syState s) \<and> rnPc (syRuns s ! 0) = PcInit \<and>
      \<not> (\<exists>labels s'. sys_exec labels s = Some s' \<and> syExit s' = Some ExitOk)"
    by (auto intro!: exI [of _ s])
qed

section \<open>The restart decision\<close>

lemma LRun_replicate:
  "syExit s = None \<Longrightarrow> i < length (syRuns s) \<Longrightarrow>
   sys_exec (replicate (Suc n) (LRun i inp)) s =
     (case run_step inp (syRuns s ! i) s of None \<Rightarrow> None
      | Some (r, t) \<Rightarrow> sys_exec (replicate n (LRun i inp)) (t\<lparr>syRuns := (syRuns s)[i := r]\<rparr>))"
  by (simp add: sys_step_def split: option.split prod.split)

lemma ended_run_steps:
  assumes "syExit s = None" and "i < length (syRuns s)" and "rnPc (syRuns s ! i) = PcKilled1"
  shows "\<exists>n s'. sys_exec (replicate n (LRun i inp)) s = Some s' \<and> syExit s' = None \<and>
     rnCtx (syRuns s ! i) \<in> syCancelled s' \<and> \<not> IsKilled (rnName (syRuns s ! i)) (syState s') \<and>
     statusMap (syState s') = statusMap (syState s) \<and> syAlive s' = syAlive s \<and>
     (if Shutdown (syState s)
      then rnPc (syRuns s' ! i) = PcUnwind \<and> rnPending (syRuns s' ! i) = rnPending (syRuns s ! i) \<and>
           syWg s' = syWg s
      else rnPc (syRuns s' ! i) = PcInit \<and> rnPending (syRuns s' ! i) = Suc (rnPending (syRuns s ! i)) \<and>
           syWg s' = syWg s + 1)"
proof -
  note defs = run_step_def IsShutdown_def SetKillState_def IsKilled_def gmap_simps wg_add_def
  let ?n = "rnName (syRuns s ! i)"
  consider "Shutdown (syState s)" "\<not> IsKilled ?n (syState s)" | "Shutdown (syState s)" "IsKilled ?n (syState s)"
    | "\<not> Shutdown (syState s)" "\<not> IsKilled ?n (syState s)" | "\<not> Shutdown (syState s)" "IsKilled ?n (syState s)"
    by blast
  then show ?thesis
  proof cases
    case 1
    then show ?thesis using assms
      by (intro exI [of _ "Suc (Suc 0)"]) (simp del: replicate_Suc add: LRun_replicate defs)
  next
    case 2
    then show ?thesis using assms
      by (intro exI [of _ "Suc (Suc (Suc (Suc (Suc (Suc 0)))))"]) (simp del: replicate_Suc add: LRun_replicate defs)
  next
    case 3
    then show ?thesis using assms
      by (intro exI [of _ "Suc (Suc (Suc (Suc (Suc (Suc 0)))))"]) (simp del: replicate_Suc add: LRun_replicate defs)
  next
    case 4
    then show ?thesis using assms
      by (intro exI [of _ "Suc (Suc (Suc (Suc (Suc 0))))"]) (simp del: replicate_Suc add: LRun_replicate defs)
  qed
qed

text \<open>C9: what happens when a child has ended. If nothing interferes, the goroutine cancels the routines
  of that child and leaves its kill flag down; before the shutdown it restarts the command, counting
  one more in the wait group, and during the shutdown it ends, whether or not the health checker
  had killed the child.\<close>

theorem restart_decision:
  assumes "syExit s = None" and "i < length (syRuns s)" and "rnPc (syRuns s ! i) = PcKilled1"
  shows "\<exists>n s'. sys_exec (replicate n (LRun i inp)) s = Some s' \<and> syExit s' = None \<and>
     rnCtx (syRuns s ! i) \<in> syCancelled s' \<and> \<not> IsKilled (rnName (syRuns s ! i)) (syState s') \<and>
     (if Shutdown (syState s)
      then rnPc (syRuns s' ! i) = PcUnwind \<and> rnPending (syRuns s' ! i) = rnPending (syRuns s ! i) \<and>
           syWg s' = syWg s
      else rnPc (syRuns s' ! i) = PcInit \<and> rnPending (syRuns s' ! i) = Suc (rnPending (syRuns s ! i)) \<and>
           syWg s' = syWg s + 1)"
  using ended_run_steps [OF assms] by metis

theorem restart_decision_witness:
  "\<exists>s n s'. reachable one_command s \<and> rnPc (syRuns s ! 0) = PcKilled1 \<and>
     sys_exec (replicate n (LRun 0 (good_input 8))) s = Some s' \<and> rnPc (syRuns s' ! 0) = PcInit"
proof -
  have "case sys_exec (start_a @ [LChildExit 7, LRun 0 (good_input 8)]) one_command of None \<Rightarrow> False
        | Some s \<Rightarrow> syExit s = None \<and> 0 < length (syRuns s) \<and> rnPc (syRuns s ! 0) = PcKilled1 \<and>
                    \<not> Shutdown (syState s)"
    by (simp add: demo_defs exec_defs)
  then obtain s where s: "reachable one_command s" "syExit s = None" "0 < length (syRuns s)"
      "rnPc (syRuns s ! 0) = PcKilled1" "\<not> Shutdown (syState s)"
    by (blast dest: reachable_case)
  from restart_decision [OF s(2-4), of "good_input 8"] s show ?thesis by (auto split: if_splits)
qed

section \<open>Termination signals\<close>

lemma pidsMap_other_op: "other_op op \<Longrightarrow> pidsMap (apply_op op st) = pidsMap st"
  by (cases op) (auto simp: other_op_def state_op_defs)

definition recorded :: "pstate \<Rightarrow> run \<Rightarrow> bool" where
  "recorded st r \<longleftrightarrow>
     (rnPc r \<in> {PcSetCancel, PcWait} \<longrightarrow> gget (pidsMap st) (rnName r) = Some (rnPid r))"

lemma run_step_recorded:
  assumes "run_step inp r s = Some (r', t)" "recorded (syState s) r"
  shows "recorded (syState t) r'"
    "rnName q \<noteq> rnName r \<Longrightarrow> recorded (syState s) q \<Longrightarrow> recorded (syState t) q"
  using assms
  by (auto simp: run_step_def recorded_def wg_add_def wg_done_def Let_def RemoveState_def SetPid_def
      SetCancelRoutine_def SetKillState_def gmap_simps split: run_pc.splits if_splits)

lemma step_pidsMap:
  assumes "sys_step l s = Some s'" "\<forall>i inp. l \<noteq> LRun i inp"
  shows "pidsMap (syState s') = pidsMap (syState s)"
proof (cases l)
  case LNotify
  then show ?thesis using assms
    by (auto simp: sys_step_def Notify_step_def push_termination_def SetShutdown_def
        split: if_splits notify_pc.splits list.splits)
qed (use assms pidsMap_other_op in \<open>auto simp: sys_step_def Notify_receive_def Schedule_step_def
  Main_add_def Main_wait_def push_termination_def wg_add_def wg_done_def SetShutdown_def Let_def
  split: if_splits signal.splits list.splits\<close>)

definition all_recorded :: "sys \<Rightarrow> bool" where
  "all_recorded s \<longleftrightarrow> list_all (recorded (syState s)) (syRuns s)"

lemma all_recorded_step:
  assumes "all_recorded s" "distinct (map rnName (syRuns s))" "sys_step l s = Some s'"
  shows "all_recorded s'"
  using assms(3)
proof (cases rule: sys_step_cases)
  case (run i inp r t)
  have ri: "recorded (syState s) (syRuns s ! i)"
    using assms(1) run(2) by (simp add: all_recorded_def list_all_length)
  note step = run_step_recorded [OF run(3) ri]
  have "recorded (syState t) (syRuns s' ! j)" if j: "j < length (syRuns s')" for j
  proof (cases "j = i")
    case True
    then show ?thesis using step(1) run(2,4) by simp
  next
    case False
    then have "rnName (syRuns s ! j) \<noteq> rnName (syRuns s ! i)"
      using assms(2) j run(2,4) by (auto simp: distinct_conv_nth)
    then show ?thesis using step(2) [of "syRuns s ! j"] assms(1) False j run(4)
      by (auto simp: all_recorded_def list_all_length)
  qed
  then show ?thesis using run(4) by (simp add: all_recorded_def list_all_length)
next
  case (sched c cs)
  then show ?thesis using assms(1)
    by (auto simp: all_recorded_def recorded_def new_run_def wg_add_def)
next
  case other
  then show ?thesis using assms(1) step_pidsMap [OF assms(3)]
    by (auto simp: all_recorded_def recorded_def list_all_iff)
qed

lemma reachable_recorded:
  assumes "reachable (start_sys file drain ls m files ps commands skip) s"
    and "distinct (commandList (NewSchedule commands skip 0))"
  shows "all_recorded s"
  using assms
proof (induction rule: reachable.induct)
  case reach_start
  show ?case by (simp add: all_recorded_def start_sys_def init_sys_def)
next
  case (reach_step s l s')
  have "distinct (map rnName (syRuns s))"
    using reachable_names [OF reach_step(1)] reach_step(4) by (metis distinct_append)
  then show ?case using all_recorded_step reach_step by blast
qed

lemma notify_send_all:
  "syNotify s = NTermSend pids \<Longrightarrow> syExit s = None \<Longrightarrow>
   sys_exec (replicate (Suc (length pids)) LNotify) s =
     Some (s\<lparr>sySent := sySent s @ pids, syNotify := NTermKill\<rparr>)"
  by (induction pids arbitrary: s) (simp_all add: sys_step_def Notify_step_def)

text \<open>C11: no waiting child is missed. When the notifier collects the pids to terminate, every child
  whose goroutine has recorded it and waits for it is sent \<^verbatim>\<open>SIGTERM\<close> before the forced kill is
  prepared, provided the process names are distinct.\<close>

theorem waiting_children_get_sigterm:
  assumes "reachable (start_sys file drain ls m files ps commands skip) s"
    and "distinct (commandList (NewSchedule commands skip 0))"
    and "syNotify s = NTermPids" and "syExit s = None"
    and "r \<in> set (syRuns s)" and "rnPc r = PcWait"
  shows "\<exists>n s'. sys_exec (replicate n LNotify) s = Some s' \<and> syNotify s' = NTermKill \<and>
                rnPid r \<in> set (sySent s')"
proof -
  have "gget (pidsMap (syState s)) (rnName r) = Some (rnPid r)"
    using reachable_recorded [OF assms(1,2)] assms(5,6)
    by (auto simp: all_recorded_def recorded_def list_all_iff)
  then have mem: "rnPid r \<in> set (GetPids (syState s))"
    by (force simp: gget_def GetPids_def dest: map_of_SomeD)
  let ?t = "s\<lparr>syNotify := NTermSend (GetPids (syState s))\<rparr>"
  have "sys_step LNotify s = Some ?t"
    using assms(3,4) by (simp add: sys_step_def Notify_step_def)
  then have "sys_exec (replicate (Suc (Suc (length (GetPids (syState s))))) LNotify) s =
      Some (?t\<lparr>sySent := sySent ?t @ GetPids (syState s), syNotify := NTermKill\<rparr>)"
    using notify_send_all [of ?t "GetPids (syState s)"] assms(4) by simp
  then show ?thesis using mem
    by (intro exI [of _ "Suc (Suc (length (GetPids (syState s))))"]
        exI [of _ "?t\<lparr>sySent := sySent ?t @ GetPids (syState s), syNotify := NTermKill\<rparr>"]) simp
qed

theorem waiting_children_get_sigterm_witness:
  "\<exists>s n s'. reachable one_command s \<and> syNotify s = NTermPids \<and>
     sys_exec (replicate n LNotify) s = Some s' \<and> syNotify s' = NTermKill \<and> 7 \<in> set (sySent s')"
proof -
  have "case sys_exec (start_a @ LSignal SIGTERM # replicate 3 LNotify) one_command of None \<Rightarrow> False
        | Some s \<Rightarrow> syNotify s = NTermPids \<and> syExit s = None \<and>
                    (\<exists>r. syRuns s = [r] \<and> rnPc r = PcWait \<and> rnPid r = 7)"
    by (simp add: demo_defs exec_defs)
  then obtain s r where s: "reachable one_command s" "syNotify s = NTermPids" "syExit s = None"
      "r \<in> set (syRuns s)" "rnPc r = PcWait" "rnPid r = 7"
    by (auto dest!: reachable_case)
  have c: "distinct (commandList (NewSchedule [plain_command ''a'' 0] [] 0))"
    by (simp add: NewSchedule_def launch_def plain_command_def)
  from waiting_children_get_sigterm [OF s(1) [unfolded demo_start_def] c s(2-5)] s show ?thesis by auto
qed

text \<open>A shared name hides a child. With two commands of the same name the pid of the first child is overwritten
  by the second, and the first is never sent \<^verbatim>\<open>SIGTERM\<close>, although its goroutine waits for it.\<close>

theorem duplicate_name_misses_sigterm:
  "\<exists>s. reachable (demo_start [plain_command ''a'' 0, plain_command ''a'' 0]) s \<and> syNotify s = NTermKill \<and>
       7 \<in> syAlive s \<and> rnPc (syRuns s ! 0) = PcWait \<and> rnPid (syRuns s ! 0) = 7 \<and> sySent s = [8]"
proof -
  have "case sys_exec ([LMainAdd, LSchedule, LSchedule, LSchedule] @ replicate 4 (LRun 0 (good_input 7)) @
          replicate 4 (LRun 1 (good_input 8)) @ LSignal SIGTERM # replicate 6 LNotify)
          (demo_start [plain_command ''a'' 0, plain_command ''a'' 0]) of None \<Rightarrow> False
        | Some s \<Rightarrow> syNotify s = NTermKill \<and> 7 \<in> syAlive s \<and> rnPc (syRuns s ! 0) = PcWait \<and>
            rnPid (syRuns s ! 0) = 7 \<and> sySent s = [8]"
    by (simp add: demo_defs exec_defs)
  then show ?thesis by (rule reachable_case)
qed

definition term_phase :: "notify_pc \<Rightarrow> bool" where
  "term_phase pc = (case pc of NTermPids \<Rightarrow> True | NTermSend _ \<Rightarrow> True | NTermKill \<Rightarrow> True
     | NIntEvent \<Rightarrow> True | NIntFile \<Rightarrow> True | NIntCancel \<Rightarrow> True | _ \<Rightarrow> False)"

text \<open>Signals come after the flag. No child is sent \<^verbatim>\<open>SIGTERM\<close> before the shutdown flag is set, so a
  child ended by the signal is never taken for one that has to be restarted: its goroutine either
  ends, or has read the flag too early and was already committed to one more child.\<close>

theorem sigterm_after_shutdown:
  assumes "reachable (start_sys file drain ls m files ps commands skip) s"
  shows "Shutdown (syState s) \<or> (sySent s = [] \<and> \<not> term_phase (syNotify s))"
  using assms
proof (induction rule: reachable.induct)
  case reach_start
  show ?case by (simp add: start_sys_def init_sys_def term_phase_def)
next
  case (reach_step s l s')
  show ?case
  proof (cases l)
    case (LRun i inp)
    then obtain r t where "run_step inp (syRuns s ! i) s = Some (r, t)"
        "s' = t\<lparr>syRuns := (syRuns s)[i := r]\<rparr>"
      using reach_step(2) by (auto simp: sys_step_def split: if_splits option.splits)
    then show ?thesis using run_step_frame reach_step.IH by fastforce
  next
    case LNotify
    then show ?thesis using reach_step
      by (auto simp: sys_step_def Notify_step_def push_termination_def SetShutdown_def term_phase_def
          split: if_splits notify_pc.splits list.splits)
  qed (use reach_step in \<open>auto simp: sys_step_def Notify_receive_def Schedule_step_def Main_add_def
    Main_wait_def push_termination_def wg_add_def wg_done_def SetShutdown_def Let_def term_phase_def
    split: if_splits signal.splits list.splits\<close>)
qed

theorem sigterm_after_shutdown_witness:
  "\<exists>s. reachable one_command s \<and> sySent s = [7] \<and> Shutdown (syState s)"
proof -
  have "case sys_exec (start_a @ term_a) one_command of None \<Rightarrow> False | Some s \<Rightarrow> sySent s = [7]"
    by (simp add: demo_defs exec_defs)
  then obtain s where s: "reachable one_command s" "sySent s = [7]" by (blast dest: reachable_case)
  from sigterm_after_shutdown [OF s(1) [unfolded demo_start_def]] s show ?thesis by auto
qed

text \<open>A late child misses the signal. A goroutine that read the shutdown flag just before it was set
  starts its child after the pids were collected: that child is never sent \<^verbatim>\<open>SIGTERM\<close> and lives until
  the forced kill.\<close>

theorem late_child_misses_sigterm:
  "\<exists>s. reachable one_command s \<and> syNotify s = NTermKill \<and> syAlive s = {8} \<and> sySent s = [7]"
proof -
  have "case sys_exec (start_a @ [LChildExit 7] @ replicate 7 (LRun 0 (good_input 8)) @ LSignal SIGTERM #
          replicate 6 LNotify @ replicate 2 (LRun 0 (good_input 8))) one_command of None \<Rightarrow> False
        | Some s \<Rightarrow> syNotify s = NTermKill \<and> syAlive s = {8} \<and> sySent s = [7]"
    by (simp add: demo_defs exec_defs)
  then show ?thesis by (rule reachable_case)
qed

section \<open>The end of a pod\<close>

text \<open>The steps to the failing start, for a goroutine that does not see a shutdown.\<close>

fun fatal_rank :: "run_pc \<Rightarrow> nat" where
  "fatal_rank PcSetPid = 13" | "fatal_rank PcSetCancel = 12" | "fatal_rank PcWait = 11"
| "fatal_rank PcKilled1 = 10" | "fatal_rank PcShut1 = 9" | "fatal_rank PcShut2 = 8"
| "fatal_rank PcReset = 7" | "fatal_rank PcCancel = 6" | "fatal_rank PcShut3 = 5"
| "fatal_rank PcInit = 4" | "fatal_rank PcRemove = 3" | "fatal_rank PcAcquire = 2"
| "fatal_rank PcStart = 1" | "fatal_rank pc = 0"

lemma fatal_step:
  assumes "syCtxDone s" "\<not> Shutdown (syState s)" "syExit s = None" "run_ok False r"
    and "holds_child r \<longrightarrow> rnPid r \<notin> syAlive s"
  shows "\<exists>r' t. run_step inp r s = Some (r', t) \<and>
           (syExit t = Some ExitFatal \<or>
            (syExit t = None \<and> fatal_rank (rnPc r') < fatal_rank (rnPc r) \<and>
             (holds_child r' \<longrightarrow> rnPid r' \<notin> syAlive t)))"
  by (cases "rnPc r")
    (use assms in \<open>simp_all add: run_step_def run_ok_def holds_child_def IsShutdown_def wg_add_def\<close>)

lemma fatal_run:
  assumes "syCtxDone s" "\<not> Shutdown (syState s)" "syExit s = None" "i < length (syRuns s)"
    and "run_ok False (syRuns s ! i)" "holds_child (syRuns s ! i) \<longrightarrow> rnPid (syRuns s ! i) \<notin> syAlive s"
  shows "\<exists>n s'. sys_exec (replicate n (LRun i inp)) s = Some s' \<and> syExit s' = Some ExitFatal"
  using assms
proof (induction "fatal_rank (rnPc (syRuns s ! i))" arbitrary: s rule: less_induct)
  case less
  obtain r t where st: "run_step inp (syRuns s ! i) s = Some (r, t)"
    and res: "syExit t = Some ExitFatal \<or> (syExit t = None \<and>
        fatal_rank (rnPc r) < fatal_rank (rnPc (syRuns s ! i)) \<and> (holds_child r \<longrightarrow> rnPid r \<notin> syAlive t))"
    using fatal_step [OF less.prems(1-3,5,6)] by blast
  let ?s = "t\<lparr>syRuns := (syRuns s)[i := r]\<rparr>"
  have step: "sys_step (LRun i inp) s = Some ?s" using st less.prems(3,4) by (simp add: sys_step_def)
  have ok: "run_ok False r" using run_step_frame(8) [OF st] run_ok_step [OF st] less.prems(2,5) by simp
  from res show ?case
  proof
    assume "syExit t = Some ExitFatal"
    then have "sys_exec (replicate 1 (LRun i inp)) s = Some ?s \<and> syExit ?s = Some ExitFatal"
      using step by simp
    then show ?thesis by blast
  next
    assume dec: "syExit t = None \<and> fatal_rank (rnPc r) < fatal_rank (rnPc (syRuns s ! i)) \<and>
        (holds_child r \<longrightarrow> rnPid r \<notin> syAlive t)"
    note frame = run_step_frame(7,8) [OF st]
    obtain n s' where "sys_exec (replicate n (LRun i inp)) ?s = Some s'" "syExit s' = Some ExitFatal"
      using less.hyps [of ?s] dec ok frame less.prems(1,2,4) by auto
    then have "sys_exec (replicate (Suc n) (LRun i inp)) s = Some s' \<and> syExit s' = Some ExitFatal"
      using step by simp
    then show ?thesis by blast
  qed
qed

text \<open>C19: the end of a pod is a failure. When the context is cancelled without a shutdown, as the pod
  status controller does when the main container has completed, every goroutine whose child is gone
  runs into a failing start: the wrapper ends with the fatal exit status and not normally.\<close>

theorem pod_completion_is_fatal:
  assumes "reachable (start_sys file drain ls m files ps commands skip) s"
    and "syCtxDone s" and "\<not> Shutdown (syState s)" and "syExit s = None"
    and "i < length (syRuns s)" and "rnPid (syRuns s ! i) \<notin> syAlive s"
  shows "\<exists>n s'. sys_exec (replicate n (LRun i inp)) s = Some s' \<and> syExit s' = Some ExitFatal"
proof -
  have "run_ok False (syRuns s ! i)"
    using reachable_run_ok [OF assms(1)] assms(3,5) by (simp add: list_all_length)
  then show ?thesis using fatal_run assms(2-6) by blast
qed

theorem pod_completion_is_fatal_witness:
  "\<exists>s n s'. reachable one_command s \<and> syCtxDone s \<and> syExit s = None \<and>
     sys_exec (replicate n (LRun 0 (good_input 9))) s = Some s' \<and> syExit s' = Some ExitFatal"
proof -
  have "case sys_exec (start_a @ [LPodCompleted, LChildExit 7]) one_command of None \<Rightarrow> False
        | Some s \<Rightarrow> syCtxDone s \<and> \<not> Shutdown (syState s) \<and> syExit s = None \<and> 0 < length (syRuns s) \<and>
                    rnPid (syRuns s ! 0) \<notin> syAlive s"
    by (simp add: demo_defs exec_defs)
  then obtain s where s: "reachable one_command s" "syCtxDone s" "\<not> Shutdown (syState s)"
      "syExit s = None" "0 < length (syRuns s)" "rnPid (syRuns s ! 0) \<notin> syAlive s"
    by (blast dest: reachable_case)
  from pod_completion_is_fatal [OF s(1) [unfolded demo_start_def] s(2-6)] s show ?thesis by blast
qed

theorem one_late_start_witness:
  "\<exists>s. reachable one_command s \<and> Shutdown (syState s) \<and> (\<exists>r. syRuns s = [r] \<and> rnLate r \<le> 1 \<and> rnLate r \<noteq> 0)"
proof -
  have "case sys_exec (start_a @ [LChildExit 7] @ replicate 7 (LRun 0 (good_input 8)) @ LSignal SIGTERM #
          replicate 3 LNotify @ replicate 2 (LRun 0 (good_input 8))) one_command of None \<Rightarrow> False
        | Some s \<Rightarrow> Shutdown (syState s) \<and> (\<exists>r. syRuns s = [r] \<and> rnLate r \<noteq> 0)"
    by (simp add: demo_defs exec_defs)
  then obtain s where s: "reachable one_command s" "Shutdown (syState s)" "\<exists>r. syRuns s = [r] \<and> rnLate r \<noteq> 0"
    by (blast dest: reachable_case)
  from one_late_start [OF s(1) [unfolded demo_start_def]] s show ?thesis by auto
qed

end
