(* ===== verification/SupervisorTypes.thy ===== *)
theory SupervisorTypes
  imports SupervisorProps
begin

text \<open>
  What every reachable state of the supervisor looks like: the shared state is the result of a
  sequence of its own methods, the recorded pids and contexts are those of children that were started.
\<close>

lemma set_gput: "set (gput k v m) \<subseteq> insert (k, v) (set m)"
  by (induction m) (auto simp: gput_def)

text \<open>The shared state is written by its methods only.\<close>

definition by_methods :: "pstate \<Rightarrow> pstate \<Rightarrow> bool" where
  "by_methods s0 s \<longleftrightarrow> (\<exists>ops. s = run_ops ops s0)"

lemma by_methods_refl: "by_methods s0 s0"
  unfolding by_methods_def by (rule exI [of _ "[]"]) (simp add: run_ops_def)

lemma by_methods_op: "by_methods s0 s \<Longrightarrow> by_methods s0 (apply_op op s)"
proof -
  assume "by_methods s0 s"
  then obtain ops where "s = run_ops ops s0" unfolding by_methods_def by blast
  then have "apply_op op s = run_ops (ops @ [op]) s0" by (simp add: run_ops_def)
  then show ?thesis unfolding by_methods_def by blast
qed

lemmas by_methods_calls =
  by_methods_op [where op = OpShutdown, simplified]
  by_methods_op [where op = "OpRemove n" for n, simplified]
  by_methods_op [where op = "OpPid n p t" for n p t, simplified]
  by_methods_op [where op = "OpCancelFunc n c" for n c, simplified]
  by_methods_op [where op = "OpKill n b" for n b, simplified]

lemma run_step_methods:
  "run_step inp r s = Some (r', t) \<Longrightarrow> by_methods s0 (syState s) \<Longrightarrow> by_methods s0 (syState t)"
  by (auto simp: run_step_def wg_add_def wg_done_def Let_def by_methods_calls
      split: run_pc.splits if_splits)

lemma sys_step_methods:
  assumes "sys_step l s = Some s'" "by_methods s0 (syState s)"
  shows "by_methods s0 (syState s')"
proof (cases l)
  case (LRun i inp)
  then show ?thesis
    using assms run_step_methods [where s = s] by (auto simp: sys_step_def split: if_splits option.splits)
next
  case LNotify
  then show ?thesis using assms
    by (auto simp: sys_step_def Notify_step_def push_termination_def by_methods_calls
        split: if_splits notify_pc.splits list.splits)
qed (use assms in \<open>auto simp: sys_step_def Notify_receive_def Schedule_step_def Main_add_def Main_wait_def
      push_termination_def wg_add_def wg_done_def Let_def by_methods_calls by_methods_op
      split: if_splits signal.splits list.splits\<close>)

lemma reachable_methods:
  "reachable (start_sys file drain ls m files ps commands skip) s \<Longrightarrow>
   by_methods (NewState file drain) (syState s)"
proof (induction rule: reachable.induct)
  case reach_start
  show ?case by (simp add: start_sys_def init_sys_def by_methods_refl)
qed (rule sys_step_methods)

lemma by_methods_wf: "by_methods (NewState file drain) s \<Longrightarrow> state_wf s"
  unfolding by_methods_def using state_wf_run_ops [OF state_wf_New] by blast

lemma by_methods_file: "by_methods s0 s \<Longrightarrow> ReadinessFile s = ReadinessFile s0"
proof -
  have "ReadinessFile (apply_op op s) = ReadinessFile s" for op s
    by (cases op) (simp_all add: state_op_defs Let_def)
  then have "ReadinessFile (run_ops ops s) = ReadinessFile s" for ops s
    by (induction ops arbitrary: s) (simp_all add: run_ops_def)
  then show "by_methods s0 s \<Longrightarrow> ReadinessFile s = ReadinessFile s0"
    unfolding by_methods_def by blast
qed

section \<open>Pids and contexts\<close>

definition run_wt :: "ctx_id \<Rightarrow> run \<Rightarrow> bool" where
  "run_wt n r \<longleftrightarrow> (holds_child r \<longrightarrow> 0 < rnPid r \<and> 0 < rnCtx r \<and> rnCtx r < n)"

definition ids_wt :: "sys \<Rightarrow> bool" where
  "ids_wt s \<longleftrightarrow>
     0 < syNextCtx s \<and> list_all (run_wt (syNextCtx s)) (syRuns s) \<and>
     (\<forall>p \<in> set (GetPids (syState s)). 0 < p) \<and>
     (\<forall>c \<in> set (CancelRoutines (syState s)). 0 < c \<and> c < syNextCtx s) \<and>
     (\<forall>p \<in> set (sySent s). 0 < p) \<and>
     (case syNotify s of NTermSend pids \<Rightarrow> \<forall>p \<in> set pids. 0 < p | _ \<Rightarrow> True)"

lemma run_wt_mono: "run_wt n r \<Longrightarrow> n \<le> m \<Longrightarrow> run_wt m r"
  by (auto simp: run_wt_def)

text \<open>The three steps that concern pids and contexts; every other step keeps them.\<close>

lemma run_step_ids_cases:
  assumes "run_step inp r s = Some (r', t)"
  obtains (start) "rnPc r = PcStart" "syState t = syState s" "syNextCtx t = Suc (syNextCtx s)"
      "0 < rnPid r'" "rnCtx r' = syNextCtx s"
  | (pid) now where "rnPc r = PcSetPid" "syState t = SetPid (rnName r) (rnPid r) now (syState s)"
      "syNextCtx t = syNextCtx s" "rnPid r' = rnPid r" "rnCtx r' = rnCtx r"
  | (cancel) "rnPc r = PcSetCancel" "syState t = SetCancelRoutine (rnName r) (rnCtx r) (syState s)"
      "syNextCtx t = syNextCtx s" "rnPid r' = rnPid r" "rnCtx r' = rnCtx r"
  | (keep) "holds_child r' \<longrightarrow> holds_child r" "pidsMap (syState t) = pidsMap (syState s)"
      "cancelRoutineMap (syState t) = cancelRoutineMap (syState s)"
      "syNextCtx t = syNextCtx s" "rnPid r' = rnPid r" "rnCtx r' = rnCtx r"
  using assms
  by (cases "rnPc r")
    (auto simp: run_step_def holds_child_def wg_add_def wg_done_def Let_def RemoveState_def
      SetKillState_def split: if_splits)

lemma run_step_ids:
  assumes "run_step inp r s = Some (r', t)" "run_wt (syNextCtx s) r"
    and "0 < syNextCtx s" "\<forall>p \<in> set (GetPids (syState s)). 0 < p"
    and "\<forall>c \<in> set (CancelRoutines (syState s)). 0 < c \<and> c < syNextCtx s"
  shows "syNextCtx s \<le> syNextCtx t \<and> run_wt (syNextCtx t) r' \<and>
    (\<forall>p \<in> set (GetPids (syState t)). 0 < p) \<and>
    (\<forall>c \<in> set (CancelRoutines (syState t)). 0 < c \<and> c < syNextCtx t)"
  using assms(1)
proof (cases rule: run_step_ids_cases)
  case start
  then show ?thesis using assms(3-5) by (auto simp: run_wt_def)
next
  case (pid now)
  then have "0 < rnPid r" "run_wt (syNextCtx t) r'" using assms(2) by (auto simp: run_wt_def holds_child_def)
  then show ?thesis using pid assms(4,5)
    by (auto simp: GetPids_def CancelRoutines_def SetPid_def Let_def dest!: subsetD [OF set_gput])
next
  case cancel
  then have "0 < rnCtx r \<and> rnCtx r < syNextCtx s" "run_wt (syNextCtx t) r'"
    using assms(2) by (auto simp: run_wt_def holds_child_def)
  then show ?thesis using cancel assms(4,5)
    by (auto simp: GetPids_def CancelRoutines_def SetCancelRoutine_def dest!: subsetD [OF set_gput])
next
  case keep
  then show ?thesis using assms(2-5) by (auto simp: run_wt_def GetPids_def CancelRoutines_def)
qed

lemma other_op_ids:
  "other_op op \<Longrightarrow> GetPids (apply_op op st) = GetPids st \<and> CancelRoutines (apply_op op st) = CancelRoutines st"
  by (cases op) (auto simp: other_op_def state_op_defs GetPids_def CancelRoutines_def)

lemma SetShutdown_ids [simp]:
  "GetPids (SetShutdown st) = GetPids st" "CancelRoutines (SetShutdown st) = CancelRoutines st"
  by (simp_all add: SetShutdown_def GetPids_def CancelRoutines_def)

lemma ids_wt_step:
  assumes "ids_wt s" "sys_step l s = Some s'"
  shows "ids_wt s'"
proof (cases l)
  case (LRun i inp)
  then obtain r t where st: "run_step inp (syRuns s ! i) s = Some (r, t)" "i < length (syRuns s)"
    and s': "s' = t\<lparr>syRuns := (syRuns s)[i := r]\<rparr>"
    using assms(2) by (auto simp: sys_step_def split: if_splits option.splits)
  have ri: "run_wt (syNextCtx s) (syRuns s ! i)"
    using assms(1) st(2) by (simp add: ids_wt_def list_all_length)
  have ids: "0 < syNextCtx s" "\<forall>p \<in> set (GetPids (syState s)). 0 < p"
    "\<forall>c \<in> set (CancelRoutines (syState s)). 0 < c \<and> c < syNextCtx s"
    using assms(1) unfolding ids_wt_def by blast+
  have step: "syNextCtx s \<le> syNextCtx t" "run_wt (syNextCtx t) r"
    "\<forall>p \<in> set (GetPids (syState t)). 0 < p" "\<forall>c \<in> set (CancelRoutines (syState t)). 0 < c \<and> c < syNextCtx t"
    using run_step_ids [OF st(1) ri ids] by blast+
  have runs: "run_wt (syNextCtx t) q" if "q \<in> set ((syRuns s)[i := r])" for q
  proof -
    have "q = r \<or> q \<in> set (syRuns s)" using set_update_subset_insert [of "syRuns s" i r] that by blast
    then show ?thesis
      using step(1,2) assms(1) run_wt_mono [of "syNextCtx s" q "syNextCtx t"] by (auto simp: ids_wt_def list_all_iff)
  qed
  have "sySent t = sySent s" "syNotify t = syNotify s" using run_step_frame(5,6) [OF st(1)] by simp_all
  moreover have "0 < syNextCtx t" using step(1) assms(1) by (simp add: ids_wt_def)
  ultimately show ?thesis
    using step(3,4) runs assms(1) unfolding s' ids_wt_def by (simp add: list_all_iff)
next
  case LNotify
  then have n: "Notify_step s = Some s'" using assms(2) by (simp add: sys_step_def split: if_splits)
  show ?thesis
  proof (cases "syNotify s")
    case (NTermSend ps)
    then show ?thesis using assms(1) n by (cases ps) (auto simp: Notify_step_def ids_wt_def)
  qed (use assms(1) n in \<open>auto simp: Notify_step_def push_termination_def ids_wt_def\<close>)
next
  case (LState op)
  then show ?thesis using assms other_op_ids
    by (auto simp: sys_step_def ids_wt_def split: if_splits)
next
  case LSchedule
  then show ?thesis using assms
    by (auto simp: sys_step_def Schedule_step_def ids_wt_def wg_add_def wg_done_def Let_def run_wt_def
        holds_child_def new_run_def split: if_splits list.splits)
next
  case (LSignal sig)
  then have n: "Notify_receive sig s = Some s'" using assms(2) by (simp add: sys_step_def split: if_splits)
  then have "syNotify s = NIdle" by (simp add: Notify_receive_def split: if_splits)
  then show ?thesis using assms(1) n
    by (cases sig) (auto simp: Notify_receive_def push_termination_def ids_wt_def)
qed (use assms in \<open>auto simp: sys_step_def Main_add_def Main_wait_def wg_add_def ids_wt_def split: if_splits\<close>)

lemma reachable_ids:
  "reachable (start_sys file drain ls m files ps commands skip) s \<Longrightarrow> ids_wt s"
proof (induction rule: reachable.induct)
  case reach_start
  show ?case
    by (simp add: start_sys_def init_sys_def ids_wt_def NewState_def GetPids_def CancelRoutines_def gempty_def)
qed (rule ids_wt_step)

text \<open>C8: the states of the wrapper are well formed. In every reachable state the shared state is what a
  sequence of its methods makes of the initial one, so its maps have unique keys, its histories at most
  ten entries and its readiness file is the configured one; every recorded pid and every pid that was
  sent a signal is positive (so no signal ever goes to a process group or to every process), and
  every recorded cancel function belongs to a context that a started child was given.\<close>

theorem wrapper_states_well_formed:
  assumes "reachable (start_sys file drain ls m files ps commands skip) s"
  shows "(\<exists>ops. syState s = run_ops ops (NewState file drain)) \<and> state_wf (syState s) \<and>
         ReadinessFile (syState s) = file \<and>
         list_all (\<lambda>p. 0 < p) (GetPids (syState s) @ sySent s) \<and>
         list_all (\<lambda>c. 0 < c \<and> c < syNextCtx s) (CancelRoutines (syState s))"
proof -
  have m: "by_methods (NewState file drain) (syState s)" using reachable_methods [OF assms] .
  have "ReadinessFile (syState s) = file" using by_methods_file [OF m] by (simp add: NewState_def)
  then show ?thesis
    using m by_methods_wf [OF m] reachable_ids [OF assms]
    by (auto simp: by_methods_def ids_wt_def list_all_iff)
qed

theorem wrapper_states_well_formed_witness:
  "\<exists>s. reachable one_command s \<and> GetPids (syState s) = [7] \<and> state_wf (syState s) \<and>
       list_all (\<lambda>p. 0 < p) (GetPids (syState s) @ sySent s)"
proof -
  have "case sys_exec start_a one_command of None \<Rightarrow> False | Some s \<Rightarrow> GetPids (syState s) = [7]"
    by (simp add: demo_defs exec_defs)
  then obtain s where s: "reachable one_command s" "GetPids (syState s) = [7]"
    by (blast dest: reachable_case)
  from wrapper_states_well_formed [OF s(1) [unfolded demo_start_def]] s show ?thesis by blast
qed

end
