(* ===== verification/Watched.thy ===== *)
theory Watched
  imports ProbeProps SupervisorTypes
begin

text \<open>
  The health checker inside the supervisor. The checker's writes to the shared state are methods of the
  state that the supervisor admits from others (\<open>other_op\<close>), and its actions are events of the
  supervisor: it cancels the context of the child, and a kill ends the child; both in the order in which
  the checker carries them out. Together with \<^verbatim>\<open>Run\<close> this is the
  restart of an unhealthy process from end to end.
\<close>

section \<open>Actions as events\<close>

fun checker_labels :: "ctx_id \<Rightarrow> run_action list \<Rightarrow> label list" where
  "checker_labels ctx [] = []"
| "checker_labels ctx (ACancel # acts) = LCancelRoutine ctx # checker_labels ctx acts"
| "checker_labels ctx (AKill p # acts) = LChildExit p # checker_labels ctx acts"
| "checker_labels ctx (AWrite op # acts) = LState op # checker_labels ctx acts"
| "checker_labels ctx (_ # acts) = checker_labels ctx acts"

lemma diff_or: "A - {p} - {q. K q} = A - {q. q = p \<or> K q}"
  by auto

lemma checker_labels_exec:
  assumes "syExit s = None" "list_all other_op (writes_of acts)"
  shows "sys_exec (checker_labels ctx acts) s =
    Some (s\<lparr>syState := run_ops (writes_of acts) (syState s), syCancelled := (if ACancel \<in> set acts then insert ctx (syCancelled s) else syCancelled s),
            syAlive := syAlive s - {p. AKill p \<in> set acts}\<rparr>)"
  using assms
  by (induction ctx acts arbitrary: s rule: checker_labels.induct) (auto simp: sys_step_def diff_or)

lemma other_ops_Shutdown: "list_all other_op ops \<Longrightarrow> Shutdown (run_ops ops st) = Shutdown st"
  by (induction ops arbitrary: st) (simp_all add: run_ops_def)

section \<open>The writes of a round are among those of others\<close>

lemma status_loop_other:
  "list_all other_op (writes_of (fst (snd (status_loop n p limit lock status f u s))))"
  by (induction status arbitrary: f u s) (simp_all add: case_prod_beta Let_def other_op_def)

lemma after_probes_other:
  assumes "after_probes c hw status cs = (cs', acts, e)"
  shows "list_all other_op (writes_of acts)"
proof (cases "ProbesUndefined (csProbe cs)")
  case True
  then show ?thesis using assms
    by (auto simp: after_probes_def PostStartHookRunner_def Let_def case_prod_beta other_op_def)
next
  case False
  obtain s1 as r where sl: "status_loop (ckName c) (ckPid c) (pFailureThreshold (csProbe cs))
      (pKeepSharedLock (csProbe cs) \<noteq> None) status (failureThreshold (csRunner cs)) 0 (csState cs) = (s1, as, r)"
    by (metis prod_cases3)
  have "list_all other_op (writes_of as)"
    using status_loop_other [of "ckName c" "ckPid c" "pFailureThreshold (csProbe cs)"
        "pKeepSharedLock (csProbe cs) \<noteq> None" status "failureThreshold (csRunner cs)" 0 "csState cs"] sl by simp
  then show ?thesis using assms False sl
    by (cases r)
      (auto simp: after_probes_def PostStartHookRunner_def Let_def case_prod_beta other_op_def split: if_split_asm)
qed

lemma probe_round_other:
  assumes "probe_round c i cs = (cs', acts, e)"
  shows "list_all other_op (writes_of acts)"
  using assms
proof (cases rule: probe_round_cases [OF assms])
  case 2
  then show ?thesis using after_probes_other by blast
qed simp

section \<open>The restart of an unhealthy process\<close>

text \<open>C4: an unhealthy process is restarted. When a round of the health checker ends by killing the process
  its goroutine waits for, then the checker's writes and actions, carried out by the supervisor in the order of the checker, and the
  steps of that goroutine lead to the goroutine preparing the next child: the old child is gone, its
  context is cancelled, the process is no longer marked as killed, is not published as ready, and
  is counted once more in the wait group.\<close>

theorem unhealthy_process_restarted:
  assumes "probe_round c inp cs = (cs', acts, Restarted)" and "csState cs = syState s" and "syExit s = None"
    and "i < length (syRuns s)" and "syRuns s ! i = r" and "rnPc r = PcWait"
    and "ckName c = rnName r" and "ckPid c = rnPid r"
  shows "\<exists>n s'. list_all other_op (writes_of acts) \<and> run_ops (writes_of acts) (syState s) = csState cs' \<and>
    sys_exec (checker_labels (rnCtx r) acts @ replicate n (LRun i ri)) s = Some s' \<and>
    rnPid r \<notin> syAlive s' \<and> rnCtx r \<in> syCancelled s' \<and> \<not> IsKilled (rnName r) (syState s') \<and>
    gget (statusMap (syState s')) (rnName r) \<noteq> Some True \<and>
    rnPc (syRuns s' ! i) = PcInit \<and> rnPending (syRuns s' ! i) = Suc (rnPending r) \<and> syWg s' = syWg s + 1"
proof -
  have ops: "list_all other_op (writes_of acts)" "csState cs' = run_ops (writes_of acts) (syState s)"
    using probe_round_other [OF assms(1)] probe_round_writes [OF assms(1)] assms(2) by simp_all
  have k: "AKill (rnPid r) \<in> set acts" "ACancel \<in> set acts"
    "gget (statusMap (csState cs')) (rnName r) \<noteq> Some True"
    using probe_round_kill [OF assms(1)] assms(7,8) by (auto simp: kill_discipline_def)
  have up: "\<not> Shutdown (syState s)"
    using assms(1,2) by (auto simp: probe_round_def IsShutdown_def split: if_splits)
  then have up': "\<not> Shutdown (csState cs')" using other_ops_Shutdown [OF ops(1)] ops(2) by simp
  let ?t = "s\<lparr>syState := csState cs', syCancelled := insert (rnCtx r) (syCancelled s),
              syAlive := syAlive s - {p. AKill p \<in> set acts}\<rparr>"
  let ?u = "?t\<lparr>syRuns := (syRuns s)[i := r\<lparr>rnPc := PcKilled1\<rparr>]\<rparr>"
  have t: "sys_exec (checker_labels (rnCtx r) acts) s = Some ?t"
    using ops k(2) assms(3) by (simp add: checker_labels_exec)
  have u: "sys_step (LRun i ri) ?t = Some ?u"
    using assms(3-6) k(1) by (simp add: sys_step_def run_step_def)
  have i: "i < length (syRuns ?u)" "rnPc (syRuns ?u ! i) = PcKilled1" "syExit ?u = None"
    "rnCtx (syRuns ?u ! i) = rnCtx r" "rnName (syRuns ?u ! i) = rnName r"
    "rnPending (syRuns ?u ! i) = rnPending r" "\<not> Shutdown (syState ?u)"
    using assms(3,4) up' by simp_all
  from ended_run_steps [OF i(3,1,2), of ri]
  obtain n s' where s': "sys_exec (replicate n (LRun i ri)) ?u = Some s'"
    "rnCtx r \<in> syCancelled s'" "\<not> IsKilled (rnName r) (syState s')"
    "statusMap (syState s') = statusMap (syState ?u)" "syAlive s' = syAlive ?u"
    "rnPc (syRuns s' ! i) = PcInit" "rnPending (syRuns s' ! i) = Suc (rnPending r)" "syWg s' = syWg ?u + 1"
    using i(4-7) by auto
  have "sys_exec (checker_labels (rnCtx r) acts @ replicate (Suc n) (LRun i ri)) s = Some s'"
    using t u s'(1) by (simp add: sup.exec_append append_assoc [symmetric] del: append_assoc)
  moreover have "rnPid r \<notin> syAlive s'" "gget (statusMap (syState s')) (rnName r) \<noteq> Some True" "syWg s' = syWg s + 1"
    using s'(4,5,8) k(1,3) by simp_all
  ultimately show ?thesis using ops s'(2,3,6,7) by metis
qed

definition strict_probe :: probe where
  "strict_probe = empty_probe\<lparr>pFailureThreshold := 1, pHTTP := Some \<lparr>httpURL = ''http://localhost/''\<rparr>\<rparr>"

definition strict_checker :: checker where
  "strict_checker = \<lparr>ckName = ''a'', ckPid = 7, ckEnvs = [], ckLabels = quiet_labels, ckLockURL = []\<rparr>"

definition strict_state :: "pstate \<Rightarrow> check_state" where
  "strict_state st = \<lparr>csProbe = strict_probe, csHook = None, csRunner = new_runner, csState = st, csServer = None\<rparr>"

lemma strict_round:
  "\<not> Shutdown st \<Longrightarrow> \<exists>cs' acts.
     probe_round strict_checker \<lparr>riCancelled = False, riLease = None, riWorld = down_world, riHook = no_hook_world\<rparr> (strict_state st) =
       (cs', acts, Restarted)"
  by (simp add: probe_round_def IsShutdown_def strict_state_def strict_probe_def strict_checker_def run_probes_def
      run_one_def empty_probe_def HTTPProbe_Run_def down_world_def pure_probe_def HealthRun_def Let_def
      bind_outcome_def after_probes_def ProbesUndefined_def new_runner_def)

theorem unhealthy_process_restarted_witness:
  "\<exists>s labels s'. reachable one_command s \<and> rnPc (syRuns s ! 0) = PcWait \<and> 7 \<in> syAlive s \<and>
     sys_exec labels s = Some s' \<and> 7 \<notin> syAlive s' \<and> rnPc (syRuns s' ! 0) = PcInit"
proof -
  have "case sys_exec start_a one_command of None \<Rightarrow> False
        | Some s \<Rightarrow> syExit s = None \<and> 0 < length (syRuns s) \<and> rnPc (syRuns s ! 0) = PcWait \<and>
            rnName (syRuns s ! 0) = ''a'' \<and> rnPid (syRuns s ! 0) = 7 \<and> 7 \<in> syAlive s \<and> \<not> Shutdown (syState s)"
    by (simp add: demo_defs exec_defs)
  then obtain s where s: "reachable one_command s" "syExit s = None" "0 < length (syRuns s)"
      "rnPc (syRuns s ! 0) = PcWait" "rnName (syRuns s ! 0) = ''a''" "rnPid (syRuns s ! 0) = 7"
      "7 \<in> syAlive s" "\<not> Shutdown (syState s)"
    by (blast dest: reachable_case)
  obtain cs' acts where round: "probe_round strict_checker
      \<lparr>riCancelled = False, riLease = None, riWorld = down_world, riHook = no_hook_world\<rparr> (strict_state (syState s)) = (cs', acts, Restarted)"
    using strict_round [OF s(8)] by blast
  have st: "csState (strict_state (syState s)) = syState s" by (simp add: strict_state_def)
  have ck: "ckName strict_checker = rnName (syRuns s ! 0)" "ckPid strict_checker = rnPid (syRuns s ! 0)"
    using s(5,6) by (simp_all add: strict_checker_def)
  from unhealthy_process_restarted [OF round st s(2,3) refl s(4) ck, of "good_input 8"]
  show ?thesis using s(1,4,6,7) by metis
qed

end
