(* ===== verification/LeaseServer.thy ===== *)
theory LeaseServer
  imports GoDuration
begin

text \<open>
  The shared-lock server: \<^verbatim>\<open>NewLock\<close> and \<^verbatim>\<open>GetLease\<close> of pkg/lease/lock/lock.go, and the HTTP
  handlers of pkg/lease/handlers/lease.go. The etcd client is a parameter: four operations on an
  abstract store. \<open>etcd_laws\<close> states what etcd documents about them, and the theorems name it as
  a hypothesis. \<^verbatim>\<open>GetLease\<close> is also given as a sequence of steps, one per call to etcd, so that
  several servers and requests interleave.
\<close>

section \<open>Configuration of the client\<close>

definition DefaultEtcdEndpoint :: string where "DefaultEtcdEndpoint = ''localhost:2379''"
definition DefaultLeaseValue :: string where "DefaultLeaseValue = ''lock-value''"
definition DefaultCaCertPath :: string where "DefaultCaCertPath = ''/cert/tls/ca.crt''"
definition DefaultClientCertPath :: string where "DefaultClientCertPath = ''/cert/tls/tls.crt''"
definition DefaultClientKeyPath :: string where "DefaultClientKeyPath = ''/cert/tls/tls.key''"

record tls_info =
  TrustedCAFile :: string
  CertFile :: string
  KeyFile :: string

record etcd_config =
  Endpoints :: "string list"
  TLS :: "tls_info option"

definition NewLock :: "string \<Rightarrow> string \<Rightarrow> string \<Rightarrow> string \<Rightarrow> bool \<Rightarrow> etcd_config" where
  "NewLock etcdEndpoints etcdCaCert etcdClientCert etcdClientKey sharedLockEtcdTLS =
     \<lparr>Endpoints =
        (if Contains etcdEndpoints '','' then Split etcdEndpoints (CHR '','')
         else if etcdEndpoints \<noteq> [] then [etcdEndpoints]
         else [DefaultEtcdEndpoint]),
      TLS =
        (if \<not> sharedLockEtcdTLS then None
         else Some
           \<lparr>TrustedCAFile = (if etcdCaCert = [] then DefaultCaCertPath else etcdCaCert),
            CertFile = (if etcdCaCert = [] then DefaultClientCertPath else etcdClientCert),
            KeyFile = (if etcdCaCert = [] then DefaultClientKeyPath else etcdClientKey)\<rparr>)\<rparr>"

text \<open>The client configuration. The endpoints are the parts of the comma-separated list (the
  default for an empty one) and never the empty list; but the defaults of the certificate and the key
  depend on the CA path: with a CA path and no certificate the client is given an empty path, and
  without a CA path the configured certificate is ignored.\<close>

theorem NewLock_config:
  "Endpoints (NewLock eps ca cert key tls) = (if eps = [] then [DefaultEtcdEndpoint] else Split eps (CHR '','')) \<and>
   map_option CertFile (TLS (NewLock eps ca cert key True)) =
     Some (if ca = [] then DefaultClientCertPath else cert) \<and>
   map_option KeyFile (TLS (NewLock eps ca cert key True)) =
     Some (if ca = [] then DefaultClientKeyPath else key)"
  by (simp add: NewLock_def Contains_char Split_id)

section \<open>Etcd\<close>

text \<open>
  \<^verbatim>\<open>Get\<close> (is there a key; \<open>None\<close> is an error), \<^verbatim>\<open>Grant\<close> (a lease id), the transaction that puts
  the key if it does not exist (whether it succeeded), and \<^verbatim>\<open>KeepAliveOnce\<close> (whether it did).
\<close>

type_synonym lease_id = int

record 'e etcd =
  etGet :: "'e \<Rightarrow> string \<Rightarrow> bool option"
  etGrant :: "'e \<Rightarrow> int \<Rightarrow> lease_id option \<times> 'e"
  etTxn :: "'e \<Rightarrow> string \<Rightarrow> string \<Rightarrow> lease_id \<Rightarrow> bool option \<times> 'e"
  etKeep :: "'e \<Rightarrow> lease_id \<Rightarrow> bool \<times> 'e"
  etExpire :: "lease_id \<Rightarrow> 'e \<Rightarrow> 'e"

text \<open>
  The documented behaviour: \<open>holder\<close> is the lease a key is attached to, \<open>used\<close> the lease ids given
  out so far. Reads are linearisable; ids are never reused; the transaction is atomic, and one that
  returns an error may or may not have been applied; expiry removes the keys of that lease.
\<close>

definition get_law :: "'e etcd \<Rightarrow> ('e \<Rightarrow> string \<Rightarrow> lease_id option) \<Rightarrow> bool" where
  "get_law et holder \<longleftrightarrow> (\<forall>e k b. etGet et e k = Some b \<longrightarrow> b = (holder e k \<noteq> None))"

definition grant_law ::
  "'e etcd \<Rightarrow> ('e \<Rightarrow> string \<Rightarrow> lease_id option) \<Rightarrow> ('e \<Rightarrow> lease_id set) \<Rightarrow> bool" where
  "grant_law et holder used \<longleftrightarrow>
     (\<forall>e ttl r e'. etGrant et e ttl = (r, e') \<longrightarrow>
        holder e' = holder e \<and> used e \<subseteq> used e' \<and>
        (\<forall>l. r = Some l \<longrightarrow> l \<notin> used e \<and> l \<in> used e' \<and> l \<noteq> 0 \<and> - (2 ^ 63) \<le> l \<and> l < 2 ^ 63))"

definition txn_law ::
  "'e etcd \<Rightarrow> ('e \<Rightarrow> string \<Rightarrow> lease_id option) \<Rightarrow> ('e \<Rightarrow> lease_id set) \<Rightarrow> bool" where
  "txn_law et holder used \<longleftrightarrow>
     (\<forall>e k v l r e'. etTxn et e k v l = (r, e') \<longrightarrow>
        used e \<subseteq> used e' \<and>
        (case r of
           Some True \<Rightarrow> holder e k = None \<and> holder e' = (holder e)(k := Some l)
         | Some False \<Rightarrow> holder e' = holder e
         | None \<Rightarrow> holder e' = holder e \<or> (holder e k = None \<and> holder e' = (holder e)(k := Some l))))"

definition keep_law ::
  "'e etcd \<Rightarrow> ('e \<Rightarrow> string \<Rightarrow> lease_id option) \<Rightarrow> ('e \<Rightarrow> lease_id set) \<Rightarrow> bool" where
  "keep_law et holder used \<longleftrightarrow>
     (\<forall>e l r e'. etKeep et e l = (r, e') \<longrightarrow> holder e' = holder e \<and> used e \<subseteq> used e')"

definition expire_law ::
  "'e etcd \<Rightarrow> ('e \<Rightarrow> string \<Rightarrow> lease_id option) \<Rightarrow> ('e \<Rightarrow> lease_id set) \<Rightarrow> bool" where
  "expire_law et holder used \<longleftrightarrow>
     (\<forall>e l. holder (etExpire et l e) = (\<lambda>k. if holder e k = Some l then None else holder e k) \<and>
            used e \<subseteq> used (etExpire et l e))"

definition etcd_laws ::
  "'e etcd \<Rightarrow> ('e \<Rightarrow> string \<Rightarrow> lease_id option) \<Rightarrow> ('e \<Rightarrow> lease_id set) \<Rightarrow> bool" where
  "etcd_laws et holder used \<longleftrightarrow>
     get_law et holder \<and> grant_law et holder used \<and> txn_law et holder used \<and>
     keep_law et holder used \<and> expire_law et holder used"

section \<open>GetLease\<close>

definition KeepLeaseOnce :: "'e etcd \<Rightarrow> lease_id \<Rightarrow> 'e \<Rightarrow> bool \<times> 'e" where
  "KeepLeaseOnce et leaseID e =
     (case etKeep et e leaseID of (False, e') \<Rightarrow> (False, e') | (True, e') \<Rightarrow> (True, e'))"

text \<open>The result is \<open>None\<close> for an error, otherwise the lease id; 0 means that the lock is taken.\<close>

definition GetLease ::
  "'e etcd \<Rightarrow> string \<Rightarrow> string option \<Rightarrow> int \<Rightarrow> string response \<Rightarrow> 'e \<Rightarrow>
   lease_id option \<times> string response \<times> 'e" where
  "GetLease et key data leaseTTL writer e =
     (let value = (case data of None \<Rightarrow> DefaultLeaseValue | Some d \<Rightarrow> d) in
      case etGet et e key of
        None \<Rightarrow> (None, writer, e)
      | Some kv \<Rightarrow>
          if kv then (Some 0, WriteHeader 202 writer, e)
          else
            (case etGrant et e leaseTTL of
               (None, e) \<Rightarrow> (None, WriteHeader 500 writer, e)
             | (Some lease, e) \<Rightarrow>
                 (case etTxn et e key value lease of
                    (None, e) \<Rightarrow> (None, writer, e)
                  | (Some succeeded, e) \<Rightarrow>
                      if \<not> succeeded then (Some 0, WriteHeader 202 writer, e)
                      else
                        (case KeepLeaseOnce et lease e of
                           (ok, e) \<Rightarrow>
                             if \<not> ok then (None, WriteHeader 500 writer, e)
                             else (Some lease, WriteHeader 201 writer, e)))))"

section \<open>The handlers\<close>

definition SOCKET :: string where "SOCKET = '':8191''"
definition DefaultPrefix :: string where "DefaultPrefix = ''/shared-lock/''"
definition DefaultLeaseDurationSeconds :: int where "DefaultLeaseDurationSeconds = 10"

definition lease_socket :: "string \<Rightarrow> string" where
  "lease_socket socket = (if socket = [] then SOCKET else socket)"

text \<open>What the handlers read of a request; the body is what could be read of it.\<close>

record lease_request =
  lqMethod :: string
  lqBody :: string
  lqReadFails :: bool
  lqCloseFails :: bool
  lqTTL :: string

text \<open>\<open>None\<close> is the nil slice.\<close>

definition readHTTPBody :: "lease_request \<Rightarrow> string response \<Rightarrow> string option \<times> string response" where
  "readHTTPBody request writer =
     (if lqMethod request \<noteq> ''POST'' then (None, WriteHeader 400 writer)
      else
        (let writer = (if lqReadFails request then WriteHeader 500 writer else writer);
             writer = (if lqCloseFails request then WriteHeader 500 writer else writer)
         in (Some (lqBody request), writer)))"

record lease =
  leaseKey :: string
  leaseValue :: string
  leaseLabels :: "(string \<times> string) list"
  leaseCreated :: int

text \<open>The TTL handed to etcd. A header that is no duration gives the constant, as nanoseconds.\<close>

definition lease_ttl :: "string \<Rightarrow> int" where
  "lease_ttl header =
     (let leaseTTL = (case ParseDuration header of Some d \<Rightarrow> d | None \<Rightarrow> DefaultLeaseDurationSeconds)
      in trunc_rat (Seconds leaseTTL))"

text \<open>
  \<^verbatim>\<open>/lease\<close>. \<open>unmarshal\<close> is \<^verbatim>\<open>json.Unmarshal\<close> into a zero lease; a failure is only logged, so what
  was decoded is used.
\<close>

definition lease_handler ::
  "'e etcd \<Rightarrow> (string \<Rightarrow> lease) \<Rightarrow> lease_request \<Rightarrow> 'e \<Rightarrow> string response \<times> 'e" where
  "lease_handler et unmarshal request e =
     (let (data, writer) = readHTTPBody request new_response;
          lease = unmarshal (case data of None \<Rightarrow> [] | Some d \<Rightarrow> d);
          key = DefaultPrefix @ leaseKey lease;
          (leaseID, writer, e) = GetLease et key data (lease_ttl (lqTTL request)) writer e;
          writer = (if leaseID = None then WriteHeader 500 writer else writer);
          writer = WriteBody (show_int (case leaseID of None \<Rightarrow> 0 | Some l \<Rightarrow> l)) writer
      in (writer, e))"

text \<open>\<^verbatim>\<open>/keepalive\<close>: an id that cannot be parsed is answered 500, and the call is made all the same.\<close>

definition keepalive_handler :: "'e etcd \<Rightarrow> lease_request \<Rightarrow> 'e \<Rightarrow> string response \<times> 'e" where
  "keepalive_handler et request e =
     (let (data, writer) = readHTTPBody request new_response;
          leaseIDString = (case data of None \<Rightarrow> [] | Some d \<Rightarrow> d);
          (leaseIDInt64, err) = ParseInt leaseIDString;
          writer = (if err \<noteq> None then WriteHeader 500 writer else writer);
          (ok, e) = KeepLeaseOnce et leaseIDInt64 e;
          writer = (if \<not> ok then WriteHeader 204 writer else writer)
      in (writer, e))"

definition health_ok_handler :: "string response" where
  "health_ok_handler = WriteHeader 200 new_response"

section \<open>GetLease in steps\<close>

datatype gl_pc = GlGet | GlGrant | GlTxn lease_id | GlKeep lease_id | GlReturn "lease_id option"

record lock_request =
  lrKey :: string
  lrData :: "string option"
  lrTTL :: int
  lrWriter :: "string response"
  lrPc :: gl_pc

definition gl_step :: "'e etcd \<Rightarrow> lock_request \<Rightarrow> 'e \<Rightarrow> lock_request \<times> 'e" where
  "gl_step et r e =
     (case lrPc r of
        GlGet \<Rightarrow>
          (case etGet et e (lrKey r) of
             None \<Rightarrow> (r\<lparr>lrPc := GlReturn None\<rparr>, e)
           | Some kv \<Rightarrow>
               if kv then (r\<lparr>lrPc := GlReturn (Some 0), lrWriter := WriteHeader 202 (lrWriter r)\<rparr>, e)
               else (r\<lparr>lrPc := GlGrant\<rparr>, e))
      | GlGrant \<Rightarrow>
          (case etGrant et e (lrTTL r) of
             (None, e) \<Rightarrow> (r\<lparr>lrPc := GlReturn None, lrWriter := WriteHeader 500 (lrWriter r)\<rparr>, e)
           | (Some lease, e) \<Rightarrow> (r\<lparr>lrPc := GlTxn lease\<rparr>, e))
      | GlTxn lease \<Rightarrow>
          (case etTxn et e (lrKey r) (case lrData r of None \<Rightarrow> DefaultLeaseValue | Some d \<Rightarrow> d) lease of
             (None, e) \<Rightarrow> (r\<lparr>lrPc := GlReturn None\<rparr>, e)
           | (Some succeeded, e) \<Rightarrow>
               if \<not> succeeded
               then (r\<lparr>lrPc := GlReturn (Some 0), lrWriter := WriteHeader 202 (lrWriter r)\<rparr>, e)
               else (r\<lparr>lrPc := GlKeep lease\<rparr>, e))
      | GlKeep lease \<Rightarrow>
          (case KeepLeaseOnce et lease e of
             (ok, e) \<Rightarrow>
               if \<not> ok then (r\<lparr>lrPc := GlReturn None, lrWriter := WriteHeader 500 (lrWriter r)\<rparr>, e)
               else (r\<lparr>lrPc := GlReturn (Some lease), lrWriter := WriteHeader 201 (lrWriter r)\<rparr>, e))
      | GlReturn _ \<Rightarrow> (r, e))"

definition gl_start :: "string \<Rightarrow> string option \<Rightarrow> int \<Rightarrow> string response \<Rightarrow> lock_request" where
  "gl_start key data ttl writer =
     \<lparr>lrKey = key, lrData = data, lrTTL = ttl, lrWriter = writer, lrPc = GlGet\<rparr>"

fun gl_run :: "nat \<Rightarrow> 'e etcd \<Rightarrow> lock_request \<Rightarrow> 'e \<Rightarrow> lock_request \<times> 'e" where
  "gl_run 0 et r e = (r, e)"
| "gl_run (Suc n) et r e = (case gl_step et r e of (r, e) \<Rightarrow> gl_run n et r e)"

text \<open>The steps are the function. Four steps without interference by others do what \<^verbatim>\<open>GetLease\<close>
  does: the same result, the same answer and the same etcd.\<close>

lemma GetLease_steps:
  "(case gl_run 4 et (gl_start key data ttl writer) e of
      (r, e') \<Rightarrow> (case lrPc r of GlReturn x \<Rightarrow> Some (x, lrWriter r, e') | _ \<Rightarrow> None)) =
   Some (GetLease et key data ttl writer e)"
proof -
  note defs = numeral_eq_Suc gl_start_def gl_step_def GetLease_def KeepLeaseOnce_def Let_def
  obtain g e1 where g: "etGrant et e ttl = (g, e1)" by (cases "etGrant et e ttl")
  obtain t e2 where t: "etTxn et e1 key (case data of None \<Rightarrow> DefaultLeaseValue | Some d \<Rightarrow> d) (the g) = (t, e2)"
    by (cases "etTxn et e1 key (case data of None \<Rightarrow> DefaultLeaseValue | Some d \<Rightarrow> d) (the g)")
  obtain k e3 where k: "etKeep et e2 (the g) = (k, e3)" by (cases "etKeep et e2 (the g)")
  consider "etGet et e key = None" | "etGet et e key = Some True"
    | "etGet et e key = Some False" "g = None"
    | l where "etGet et e key = Some False" "g = Some l" "t = None"
    | l where "etGet et e key = Some False" "g = Some l" "t = Some False"
    | l where "etGet et e key = Some False" "g = Some l" "t = Some True" "k"
    | l where "etGet et e key = Some False" "g = Some l" "t = Some True" "\<not> k"
    by (cases "etGet et e key"; cases g; cases t; cases k) auto
  then show ?thesis
    by cases (use g t k in \<open>simp_all add: defs\<close>)
qed

section \<open>Interleaved requests\<close>

record 'e lock_sys =
  lsEtcd :: 'e
  lsReqs :: "lock_request list"

datatype lock_label = LkNew string "string option" int "string response" | LkStep nat | LkExpire lease_id

definition lock_step :: "'e etcd \<Rightarrow> lock_label \<Rightarrow> 'e lock_sys \<Rightarrow> 'e lock_sys option" where
  "lock_step et l s =
     (case l of
        LkNew key data ttl writer \<Rightarrow> Some (s\<lparr>lsReqs := lsReqs s @ [gl_start key data ttl writer]\<rparr>)
      | LkStep i \<Rightarrow>
          if i < length (lsReqs s) then
            (case gl_step et (lsReqs s ! i) (lsEtcd s) of
               (r, e) \<Rightarrow> Some (s\<lparr>lsEtcd := e, lsReqs := (lsReqs s)[i := r]\<rparr>))
          else None
      | LkExpire l \<Rightarrow> Some (s\<lparr>lsEtcd := etExpire et l (lsEtcd s)\<rparr>))"

fun lock_exec :: "'e etcd \<Rightarrow> lock_label list \<Rightarrow> 'e lock_sys \<Rightarrow> 'e lock_sys option" where
  "lock_exec et [] s = Some s"
| "lock_exec et (l # ls) s = (case lock_step et l s of None \<Rightarrow> None | Some s' \<Rightarrow> lock_exec et ls s')"

interpretation lk: execution "lock_step et" "lock_exec et" for et
  by unfold_locales simp_all

end
