(* ===== verification/LeaseServerProps.thy ===== *)
theory LeaseServerProps
  imports LeaseServer
begin

text \<open>
  Theorems on the shared-lock server: mutual exclusion over interleaved requests and lease
  expiry, and what the HTTP handlers answer. The hypothesis on etcd is \<open>etcd_laws\<close>; at the end
  it is shown to hold of a small store, which the concrete instances use.
\<close>

section \<open>A store that satisfies the laws\<close>

text \<open>Keys with their leases, and the next lease id.\<close>

type_synonym mini_etcd = "(string \<Rightarrow> lease_id option) \<times> nat"

text \<open>Ids are drawn from a range of \<^verbatim>\<open>int64\<close>; when it is exhausted, \<^verbatim>\<open>Grant\<close> fails.\<close>

definition mini_ops :: "mini_etcd etcd" where
  "mini_ops =
     \<lparr>etGet = (\<lambda>(m, n) k. Some (m k \<noteq> None)),
      etGrant = (\<lambda>(m, n) ttl. if n < 1000000 then (Some (int n + 1), (m, Suc n)) else (None, (m, n))),
      etTxn = (\<lambda>(m, n) k v l. if m k = None then (Some True, (m(k := Some l), n)) else (Some False, (m, n))),
      etKeep = (\<lambda>(m, n) l. (l \<in> ran m, (m, n))),
      etExpire = (\<lambda>l (m, n). ((\<lambda>k. if m k = Some l then None else m k), n))\<rparr>"

definition mini_holder :: "mini_etcd \<Rightarrow> string \<Rightarrow> lease_id option" where
  "mini_holder e = fst e"

definition mini_used :: "mini_etcd \<Rightarrow> lease_id set" where
  "mini_used e = {l. 1 \<le> l \<and> l \<le> int (snd e)}"

lemma mini_laws: "etcd_laws mini_ops mini_holder mini_used"
  by (auto simp: etcd_laws_def get_law_def grant_law_def txn_law_def keep_law_def expire_law_def mini_ops_def mini_holder_def mini_used_def split: if_splits)

section \<open>Consequences of the laws\<close>

lemma law_get: "etcd_laws et holder used \<Longrightarrow> etGet et e k = Some b \<Longrightarrow> b = (holder e k \<noteq> None)"
  unfolding etcd_laws_def get_law_def by blast

lemma law_grant:
  "etcd_laws et holder used \<Longrightarrow> etGrant et e ttl = (r, e') \<Longrightarrow>
   holder e' = holder e \<and> used e \<subseteq> used e' \<and>
   (\<forall>l. r = Some l \<longrightarrow> l \<notin> used e \<and> l \<in> used e' \<and> l \<noteq> 0 \<and> - (2 ^ 63) \<le> l \<and> l < 2 ^ 63)"
  unfolding etcd_laws_def grant_law_def by blast

lemma law_txn:
  "etcd_laws et holder used \<Longrightarrow> etTxn et e k v l = (r, e') \<Longrightarrow>
   used e \<subseteq> used e' \<and>
   (case r of
      Some True \<Rightarrow> holder e k = None \<and> holder e' = (holder e)(k := Some l)
    | Some False \<Rightarrow> holder e' = holder e
    | None \<Rightarrow> holder e' = holder e \<or> (holder e k = None \<and> holder e' = (holder e)(k := Some l)))"
  unfolding etcd_laws_def txn_law_def by blast

lemma law_keep:
  "etcd_laws et holder used \<Longrightarrow> etKeep et e l = (r, e') \<Longrightarrow> holder e' = holder e \<and> used e \<subseteq> used e'"
  unfolding etcd_laws_def keep_law_def by blast

lemma law_expire:
  "etcd_laws et holder used \<Longrightarrow>
   holder (etExpire et l e) = (\<lambda>k. if holder e k = Some l then None else holder e k) \<and>
   used e \<subseteq> used (etExpire et l e)"
  unfolding etcd_laws_def expire_law_def by blast

text \<open>The requests whose transaction succeeded, and the lease a request works with.\<close>

definition acquired :: "lock_request \<Rightarrow> bool" where
  "acquired r = (case lrPc r of GlKeep l \<Rightarrow> True | GlReturn (Some l) \<Rightarrow> l \<noteq> 0 | _ \<Rightarrow> False)"

definition lease_of :: "lock_request \<Rightarrow> lease_id option" where
  "lease_of r =
     (case lrPc r of GlTxn l \<Rightarrow> Some l | GlKeep l \<Rightarrow> Some l
      | GlReturn (Some l) \<Rightarrow> if l = 0 then None else Some l | _ \<Rightarrow> None)"

lemma KeepLeaseOnce_etKeep: "KeepLeaseOnce et l e = etKeep et e l"
  by (cases "etKeep et e l") (simp add: KeepLeaseOnce_def split: bool.split)

text \<open>A step changes at most its own key, and only from free to its own lease.\<close>

lemma gl_step_effect:
  assumes "etcd_laws et holder used" "gl_step et r e = (r', e')"
  shows "lrKey r' = lrKey r \<and> used e \<subseteq> used e' \<and>
    (holder e' = holder e \<or> (holder e (lrKey r) = None \<and> holder e' \<noteq> holder e \<and>
       (\<exists>l. holder e' = (holder e)(lrKey r := Some l)))) \<and>
    (acquired r' \<longrightarrow> acquired r \<or> holder e (lrKey r) = None) \<and>
    (acquired r' \<longrightarrow> (\<exists>l. lease_of r' = Some l \<and>
       (if acquired r then lease_of r = Some l else holder e' (lrKey r) = Some l))) \<and>
    (\<forall>l. lease_of r' = Some l \<longrightarrow> lease_of r = Some l \<or> (l \<notin> used e \<and> l \<in> used e'))"
proof (cases "lrPc r")
  case GlGet
  then show ?thesis using assms(2)
    by (auto simp: gl_step_def acquired_def lease_of_def split: option.splits if_splits)
next
  case GlGrant
  obtain g e1 where g: "etGrant et e (lrTTL r) = (g, e1)" by (cases "etGrant et e (lrTTL r)")
  then show ?thesis using assms(2) GlGrant law_grant [OF assms(1) g]
    by (auto simp: gl_step_def acquired_def lease_of_def split: option.splits)
next
  case (GlTxn l)
  let ?v = "case lrData r of None \<Rightarrow> DefaultLeaseValue | Some d \<Rightarrow> d"
  obtain t e1 where t: "etTxn et e (lrKey r) ?v l = (t, e1)" by (cases "etTxn et e (lrKey r) ?v l")
  note law = law_txn [OF assms(1) t]
  consider "t = None" | "t = Some False" | "t = Some True" by (cases t) auto
  then show ?thesis
    by cases (use assms(2) GlTxn t law in \<open>auto simp: gl_step_def acquired_def lease_of_def\<close>)
next
  case (GlKeep l)
  obtain k e1 where k: "etKeep et e l = (k, e1)" by (cases "etKeep et e l")
  then show ?thesis using assms(2) GlKeep law_keep [OF assms(1) k]
    by (auto simp: gl_step_def acquired_def lease_of_def KeepLeaseOnce_etKeep split: if_splits)
next
  case (GlReturn x)
  then show ?thesis using assms(2)
    by (auto simp: gl_step_def acquired_def lease_of_def split: option.splits)
qed

section \<open>Mutual exclusion\<close>

text \<open>What holds while lease \<open>a\<close> holds the key \<open>k\<close>: no request has acquired it that had not before.\<close>

definition excluded :: "lock_request list \<Rightarrow> string \<Rightarrow> lock_request list \<Rightarrow> bool" where
  "excluded before k now \<longleftrightarrow>
     length before \<le> length now \<and>
     (\<forall>i < length now. lrKey (now ! i) = k \<longrightarrow> acquired (now ! i) \<longrightarrow>
        i < length before \<and> lrKey (before ! i) = k \<and> acquired (before ! i))"

lemma held_step:
  assumes laws: "etcd_laws et holder used" and step: "lock_step et l s = Some s'" and ne: "l \<noteq> LkExpire a"
    and held: "holder (lsEtcd s) k = Some a" and ex: "excluded before k (lsReqs s)"
  shows "holder (lsEtcd s') k = Some a \<and> excluded before k (lsReqs s')"
proof (cases l)
  case (LkNew key data ttl writer)
  then show ?thesis using step held ex
    by (auto simp: lock_step_def excluded_def nth_append gl_start_def acquired_def less_Suc_eq)
next
  case (LkStep i)
  obtain r e where st: "gl_step et (lsReqs s ! i) (lsEtcd s) = (r, e)"
    by (cases "gl_step et (lsReqs s ! i) (lsEtcd s)")
  have s': "i < length (lsReqs s)" "lsEtcd s' = e" "lsReqs s' = (lsReqs s)[i := r]"
    using step LkStep st by (auto simp: lock_step_def split: if_splits)
  note eff = gl_step_effect [OF laws st]
  have h: "holder e k = Some a" using eff held by (auto split: if_splits)
  have "acquired r \<longrightarrow> acquired (lsReqs s ! i)" if "lrKey r = k" using eff held that by auto
  then have "excluded before k (lsReqs s')"
    using ex eff s' by (auto simp: excluded_def nth_list_update)
  then show ?thesis using h s' by simp
next
  case (LkExpire b)
  then show ?thesis using step ne held ex law_expire [OF laws, of b "lsEtcd s"]
    by (auto simp: lock_step_def)
qed

text \<open>C12: a held lock excludes others. While the lease that holds a key does not expire, it goes on
  holding it, and no request for that key acquires it, whatever requests of whatever servers arrive and
  however their calls to etcd interleave, failed calls included; only a request whose transaction had
  already succeeded can still be answered as the owner.\<close>

theorem held_lock_excludes:
  assumes "etcd_laws et holder used" and "lock_exec et labels s = Some s'"
    and "holder (lsEtcd s) k = Some a" and "LkExpire a \<notin> set labels"
  shows "holder (lsEtcd s') k = Some a \<and> excluded (lsReqs s) k (lsReqs s')"
proof (rule lk.exec_invariant [OF assms(2),
      where I = "\<lambda>t. holder (lsEtcd t) k = Some a \<and> excluded (lsReqs s) k (lsReqs t)"])
  show "holder (lsEtcd s) k = Some a \<and> excluded (lsReqs s) k (lsReqs s)"
    using assms(3) by (simp add: excluded_def)
next
  fix l t t'
  assume "l \<in> set labels" "holder (lsEtcd t) k = Some a \<and> excluded (lsReqs s) k (lsReqs t)"
    "lock_step et l t = Some t'"
  then show "holder (lsEtcd t') k = Some a \<and> excluded (lsReqs s) k (lsReqs t')"
    using held_step [OF assms(1)] assms(4) by metis
qed

theorem held_lock_excludes_witness:
  "\<exists>s'. lock_exec mini_ops [LkNew ''k'' None 2 new_response, LkStep 0, LkNew ''k'' None 2 new_response, LkStep 1]
         \<lparr>lsEtcd = ([''k'' \<mapsto> 5], 5), lsReqs = []\<rparr> = Some s' \<and>
       fst (lsEtcd s') ''k'' = Some 5 \<and> list_all (\<lambda>r. \<not> acquired r) (lsReqs s')"
proof -
  let ?ls = "[LkNew ''k'' None 2 new_response, LkStep 0, LkNew ''k'' None 2 new_response, LkStep 1]"
  let ?s = "\<lparr>lsEtcd = ([''k'' \<mapsto> 5], 5), lsReqs = []\<rparr> :: mini_etcd lock_sys"
  have "lock_exec mini_ops ?ls ?s \<noteq> None \<and>
      list_all (\<lambda>r. lrKey r = ''k'') (lsReqs (the (lock_exec mini_ops ?ls ?s)))"
    by (simp add: lock_step_def gl_step_def gl_start_def mini_ops_def)
  then obtain s' where s': "lock_exec mini_ops ?ls ?s = Some s'" "list_all (\<lambda>r. lrKey r = ''k'') (lsReqs s')"
    by auto
  have "mini_holder (lsEtcd ?s) ''k'' = Some 5" by (simp add: mini_holder_def)
  from held_lock_excludes [OF mini_laws s'(1) this] s' show ?thesis
    by (auto simp: excluded_def mini_holder_def list_all_length)
qed

text \<open>The leases that requests work with are all different.\<close>

definition lease_at :: "'e lock_sys \<Rightarrow> nat \<Rightarrow> lease_id option" where
  "lease_at s i = (if i < length (lsReqs s) then lease_of (lsReqs s ! i) else None)"

definition leases_distinct :: "('e \<Rightarrow> lease_id set) \<Rightarrow> 'e lock_sys \<Rightarrow> bool" where
  "leases_distinct used s \<longleftrightarrow>
     (\<forall>i l. lease_at s i = Some l \<longrightarrow> l \<in> used (lsEtcd s)) \<and>
     (\<forall>i j l. lease_at s i = Some l \<longrightarrow> lease_at s j = Some l \<longrightarrow> i = j)"

lemma leases_distinct_same:
  "leases_distinct used s \<Longrightarrow> lease_at s' = lease_at s \<Longrightarrow> used (lsEtcd s) \<subseteq> used (lsEtcd s') \<Longrightarrow>
   leases_distinct used s'"
  unfolding leases_distinct_def by auto

lemma leases_distinct_update:
  assumes "leases_distinct used s" "lease_at s' = (lease_at s)(i := x)" "used (lsEtcd s) \<subseteq> used (lsEtcd s')"
    and "\<And>l. x = Some l \<Longrightarrow> lease_at s i = Some l \<or> (l \<notin> used (lsEtcd s) \<and> l \<in> used (lsEtcd s'))"
  shows "leases_distinct used s'"
proof -
  have other: "j = i" if "x = Some l" "lease_at s j = Some l" for j l
    using assms(1,4) that unfolding leases_distinct_def by blast
  show ?thesis
    unfolding leases_distinct_def assms(2)
  proof (intro conjI allI impI)
    fix j l assume "((lease_at s)(i := x)) j = Some l"
    then show "l \<in> used (lsEtcd s')"
      using assms(1,3,4) unfolding leases_distinct_def by (cases "j = i") auto
  next
    fix j m l assume a: "((lease_at s)(i := x)) j = Some l" "((lease_at s)(i := x)) m = Some l"
    show "j = m"
    proof (cases "j = i \<or> m = i")
      case True
      then show ?thesis using other a by (auto split: if_splits)
    next
      case False
      then have "lease_at s j = Some l" "lease_at s m = Some l" using a by simp_all
      then show ?thesis using assms(1) unfolding leases_distinct_def by blast
    qed
  qed
qed

lemma leases_distinct_step:
  assumes laws: "etcd_laws et holder used" and step: "lock_step et l s = Some s'" and d: "leases_distinct used s"
  shows "leases_distinct used s'"
proof (cases l)
  case (LkNew key data ttl writer)
  then have "lease_at s' = lease_at s" "lsEtcd s' = lsEtcd s" using step
    by (auto simp: lock_step_def lease_at_def nth_append gl_start_def lease_of_def fun_eq_iff)
  then show ?thesis using leases_distinct_same [OF d] by simp
next
  case (LkStep i)
  obtain r e where st: "gl_step et (lsReqs s ! i) (lsEtcd s) = (r, e)"
    by (cases "gl_step et (lsReqs s ! i) (lsEtcd s)")
  have s': "i < length (lsReqs s)" "lsEtcd s' = e" "lsReqs s' = (lsReqs s)[i := r]"
    using step LkStep st by (auto simp: lock_step_def split: if_splits)
  then have "lease_at s' = (lease_at s)(i := lease_of r)"
    by (auto simp: lease_at_def fun_eq_iff)
  moreover have "used (lsEtcd s) \<subseteq> used (lsEtcd s')"
    "\<And>l. lease_of r = Some l \<Longrightarrow>
      lease_at s i = Some l \<or> (l \<notin> used (lsEtcd s) \<and> l \<in> used (lsEtcd s'))"
    using gl_step_effect [OF laws st] s'(1,2) unfolding lease_at_def by auto
  ultimately show ?thesis by (rule leases_distinct_update [OF d])
next
  case (LkExpire b)
  then have "lease_at s' = lease_at s" "lsEtcd s' = etExpire et b (lsEtcd s)" using step
    by (auto simp: lock_step_def lease_at_def fun_eq_iff)
  then show ?thesis using leases_distinct_same [OF d] law_expire [OF laws, of b "lsEtcd s"] by simp
qed

text \<open>A lease that a request has acquired and that never expires holds the key of the request.\<close>

definition acquired_at :: "'e lock_sys \<Rightarrow> nat \<Rightarrow> string \<Rightarrow> bool" where
  "acquired_at s i k \<longleftrightarrow> i < length (lsReqs s) \<and> lrKey (lsReqs s ! i) = k \<and> acquired (lsReqs s ! i)"

definition kept_keys :: "lock_label set \<Rightarrow> ('e \<Rightarrow> string \<Rightarrow> lease_id option) \<Rightarrow> 'e lock_sys \<Rightarrow> bool" where
  "kept_keys L holder s \<longleftrightarrow>
     (\<forall>i k. acquired_at s i k \<longrightarrow>
        (\<exists>a. lease_at s i = Some a \<and> (LkExpire a \<notin> L \<longrightarrow> holder (lsEtcd s) k = Some a)))"

lemma kept_keys_step:
  assumes laws: "etcd_laws et holder used" and step: "lock_step et l s = Some s'" and l: "l \<in> L"
    and kept: "kept_keys L holder s"
  shows "kept_keys L holder s'"
  unfolding kept_keys_def
proof (intro allI impI)
  fix i k assume acq: "acquired_at s' i k"
  show "\<exists>a. lease_at s' i = Some a \<and> (LkExpire a \<notin> L \<longrightarrow> holder (lsEtcd s') k = Some a)"
  proof (cases l)
    case (LkNew key data ttl writer)
    then have "acquired_at s i k" "lease_at s' i = lease_at s i" "lsEtcd s' = lsEtcd s" using step acq
      by (auto simp: lock_step_def lease_at_def acquired_at_def nth_append gl_start_def lease_of_def
          acquired_def split: if_splits)
    then show ?thesis using kept unfolding kept_keys_def by metis
  next
    case (LkStep j)
    obtain r e where st: "gl_step et (lsReqs s ! j) (lsEtcd s) = (r, e)"
      by (cases "gl_step et (lsReqs s ! j) (lsEtcd s)")
    have s': "j < length (lsReqs s)" "lsEtcd s' = e" "lsReqs s' = (lsReqs s)[j := r]"
      using step LkStep st by (auto simp: lock_step_def split: if_splits)
    note eff = gl_step_effect [OF laws st]
    have stays: "holder e k = Some a" if "holder (lsEtcd s) k = Some a" for a
      using eff that by (auto split: if_splits)
    show ?thesis
    proof (cases "i = j")
      case True
      then have r: "lrKey (lsReqs s ! j) = k" "acquired r" "lease_at s' i = lease_of r" "lease_at s i = lease_of (lsReqs s ! j)"
        using acq s' eff by (auto simp: acquired_at_def lease_at_def)
      then obtain a where a: "lease_of r = Some a"
        "if acquired (lsReqs s ! j) then lease_of (lsReqs s ! j) = Some a else holder e k = Some a"
        using eff by blast
      show ?thesis
      proof (cases "acquired (lsReqs s ! j)")
        case True
        then have "acquired_at s i k" using r(1) s'(1) \<open>i = j\<close> by (simp add: acquired_at_def)
        then show ?thesis using kept stays a True r(3,4) s'(2) unfolding kept_keys_def by force
      qed (use a r(3) s'(2) in simp)
    next
      case False
      then have "acquired_at s i k" "lease_at s' i = lease_at s i"
        using acq s' by (auto simp: acquired_at_def lease_at_def)
      then show ?thesis using kept stays s'(2) unfolding kept_keys_def by metis
    qed
  next
    case (LkExpire b)
    then have s': "lsReqs s' = lsReqs s" "lsEtcd s' = etExpire et b (lsEtcd s)"
      using step by (auto simp: lock_step_def)
    then have "acquired_at s i k" "lease_at s' i = lease_at s i"
      using acq by (simp_all add: acquired_at_def lease_at_def)
    then obtain a where a: "lease_at s' i = Some a" "LkExpire a \<notin> L \<longrightarrow> holder (lsEtcd s) k = Some a"
      using kept unfolding kept_keys_def by metis
    have "holder (lsEtcd s') k = Some a" if "LkExpire a \<notin> L"
      using that a(2) l LkExpire s'(2) law_expire [OF laws, of b "lsEtcd s"] by auto
    then show ?thesis using a(1) by blast
  qed
qed

text \<open>C5: mutual exclusion. However the requests of any number of servers interleave, with lease
  expiries and failing calls in between: two requests for the same key can both have acquired the lock
  (that is, have gone past the transaction without a failure, or been answered with a lease) only
  if the lease of one of them has expired.\<close>

theorem mutual_exclusion:
  assumes "etcd_laws et holder used" and "lock_exec et labels \<lparr>lsEtcd = e, lsReqs = []\<rparr> = Some s"
    and "i \<noteq> j" and "acquired_at s i k" and "acquired_at s j k"
  shows "\<exists>a. LkExpire a \<in> set labels \<and> (lease_at s i = Some a \<or> lease_at s j = Some a)"
proof (rule ccontr)
  assume none: "\<not> ?thesis"
  have "leases_distinct used s \<and> kept_keys (set labels) holder s"
  proof (rule lk.exec_invariant [OF assms(2)])
    show "leases_distinct used \<lparr>lsEtcd = e, lsReqs = []\<rparr> \<and> kept_keys (set labels) holder \<lparr>lsEtcd = e, lsReqs = []\<rparr>"
      by (simp add: leases_distinct_def lease_at_def kept_keys_def acquired_at_def)
  qed (use leases_distinct_step [OF assms(1)] kept_keys_step [OF assms(1)] in blast)
  then have d: "leases_distinct used s" and kk: "kept_keys (set labels) holder s" by simp_all
  obtain a where a: "lease_at s i = Some a" "holder (lsEtcd s) k = Some a"
    using kk assms(4) none unfolding kept_keys_def by blast
  obtain b where b: "lease_at s j = Some b" "holder (lsEtcd s) k = Some b"
    using kk assms(5) none unfolding kept_keys_def by blast
  from a b have "lease_at s j = Some a" by simp
  then show False using d a(1) assms(3) unfolding leases_distinct_def by blast
qed

theorem mutual_exclusion_witness:
  "\<exists>s a. lock_exec mini_ops [LkNew ''k'' None 2 new_response, LkStep 0, LkStep 0, LkStep 0, LkStep 0,
           LkExpire 1, LkNew ''k'' None 2 new_response, LkStep 1, LkStep 1, LkStep 1, LkStep 1]
         \<lparr>lsEtcd = (Map.empty, 0), lsReqs = []\<rparr> = Some s \<and>
       acquired_at s 0 ''k'' \<and> acquired_at s 1 ''k'' \<and> a = 1 \<and>
       (lease_at s 0 = Some a \<or> lease_at s 1 = Some a)"
proof -
  let ?ls = "[LkNew ''k'' None 2 new_response, LkStep 0, LkStep 0, LkStep 0, LkStep 0,
     LkExpire 1, LkNew ''k'' None 2 new_response, LkStep 1, LkStep 1, LkStep 1, LkStep 1]"
  let ?s = "\<lparr>lsEtcd = (Map.empty, 0), lsReqs = []\<rparr> :: mini_etcd lock_sys"
  have "lock_exec mini_ops ?ls ?s \<noteq> None \<and> acquired_at (the (lock_exec mini_ops ?ls ?s)) 0 ''k'' \<and>
      acquired_at (the (lock_exec mini_ops ?ls ?s)) 1 ''k''"
    by (simp add: lock_step_def gl_step_def gl_start_def mini_ops_def KeepLeaseOnce_def
        acquired_at_def acquired_def)
  then obtain s where s: "lock_exec mini_ops ?ls ?s = Some s" "acquired_at s 0 ''k''" "acquired_at s 1 ''k''"
    by auto
  from mutual_exclusion [OF mini_laws s(1) _ s(2,3)] s show ?thesis by auto
qed

section \<open>The answers of the server\<close>

lemma GetLease_cases:
  assumes "etcd_laws et holder used" "GetLease et key data ttl w e = (r, w', e')"
  shows "(r = None \<and> (w' = w \<or> w' = WriteHeader 500 w)) \<or>
         (r = Some 0 \<and> w' = WriteHeader 202 w \<and> holder e' = holder e) \<or>
         (\<exists>l. r = Some l \<and> l \<noteq> 0 \<and> - (2 ^ 63) \<le> l \<and> l < 2 ^ 63 \<and> w' = WriteHeader 201 w \<and>
              holder e key = None \<and> holder e' = (holder e)(key := Some l))"
proof -
  let ?v = "case data of None \<Rightarrow> DefaultLeaseValue | Some d \<Rightarrow> d"
  obtain g e1 where g: "etGrant et e ttl = (g, e1)" by (cases "etGrant et e ttl")
  obtain t e2 where t: "etTxn et e1 key ?v (the g) = (t, e2)" by (cases "etTxn et e1 key ?v (the g)")
  obtain k e3 where k: "etKeep et e2 (the g) = (k, e3)" by (cases "etKeep et e2 (the g)")
  have hg: "holder e1 = holder e" "\<And>l. g = Some l \<Longrightarrow> l \<noteq> 0 \<and> - (2 ^ 63) \<le> l \<and> l < 2 ^ 63"
    using law_grant [OF assms(1) g] by blast+
  have ht: "t = Some False \<Longrightarrow> holder e2 = holder e1"
    "t = Some True \<Longrightarrow> holder e1 key = None \<and> holder e2 = (holder e1)(key := Some (the g))"
    using law_txn [OF assms(1) t] by simp_all
  have hk: "holder e3 = holder e2" using law_keep [OF assms(1) k] by blast
  note defs = GetLease_def KeepLeaseOnce_etKeep Let_def
  note run = assms(2) [unfolded defs]
  consider "etGet et e key = None" | "etGet et e key = Some True"
    | "etGet et e key = Some False" "g = None"
    | l where "etGet et e key = Some False" "g = Some l" "t = None"
    | l where "etGet et e key = Some False" "g = Some l" "t = Some False"
    | l where "etGet et e key = Some False" "g = Some l" "t = Some True" "k"
    | l where "etGet et e key = Some False" "g = Some l" "t = Some True" "\<not> k"
    by (cases "etGet et e key"; cases g; cases t; cases k) auto
  then show ?thesis
  proof cases
    case 6
    then have "r = Some l" "w' = WriteHeader 201 w" "e' = e3" using run g t k by simp_all
    moreover have "l \<noteq> 0 \<and> - (2 ^ 63) \<le> l \<and> l < 2 ^ 63" using hg(2) [OF 6(2)] .
    ultimately show ?thesis using ht(2) [OF 6(3)] hg(1) hk 6(2) by simp
  next
    case 5
    then have "r = Some 0" "w' = WriteHeader 202 w" "e' = e2" using run g t by simp_all
    then show ?thesis using ht(1) [OF 5(3)] hg(1) by simp
  next
    case 1
    then show ?thesis using run by simp
  next
    case 2
    then show ?thesis using run by simp
  next
    case 3
    then show ?thesis using run g by simp
  next
    case 4
    then show ?thesis using run g t by simp
  next
    case 7
    then show ?thesis using run g t k by simp
  qed
qed

text \<open>C16: \<^verbatim>\<open>POST /lease\<close>, for a request whose body is read and closed without error. The answer 201 carries the id of a lease that now holds the key, which was free;
  any other answer is 202 or 500 and carries 0. A key that is held is answered 202, and etcd is
  left alone.\<close>

theorem lease_endpoint:
  assumes "etcd_laws et holder used" and "lqMethod rq = ''POST''" and "\<not> lqReadFails rq" and "\<not> lqCloseFails rq"
    and "key = DefaultPrefix @ leaseKey (unmarshal (lqBody rq))"
  shows "(case lease_handler et unmarshal rq e of
            (w, e') \<Rightarrow>
              if respStatus w = 201
              then \<exists>l. l \<noteq> 0 \<and> respBody w = [show_int l] \<and> holder e key = None \<and> holder e' key = Some l
              else respStatus w \<in> {202, 500} \<and> respBody w = [show_int 0]) \<and>
         (if etGet et e key = Some True
          then lease_handler et unmarshal rq e = (WriteBody (show_int 0) (WriteHeader 202 new_response), e)
          else True)"
proof
  obtain r w' e' where g: "GetLease et key (Some (lqBody rq)) (lease_ttl (lqTTL rq)) new_response e = (r, w', e')"
    by (metis prod_cases3)
  then have h: "lease_handler et unmarshal rq e =
      (WriteBody (show_int (case r of None \<Rightarrow> 0 | Some l \<Rightarrow> l))
         (if r = None then WriteHeader 500 w' else w'), e')"
    using assms(2-5) by (simp add: lease_handler_def readHTTPBody_def Let_def)
  show "case lease_handler et unmarshal rq e of
            (w, e') \<Rightarrow>
              if respStatus w = 201
              then \<exists>l. l \<noteq> 0 \<and> respBody w = [show_int l] \<and> holder e key = None \<and> holder e' key = Some l
              else respStatus w \<in> {202, 500} \<and> respBody w = [show_int 0]"
    using GetLease_cases [OF assms(1) g] h by (auto simp: status_WriteHeader)
  show "if etGet et e key = Some True
        then lease_handler et unmarshal rq e = (WriteBody (show_int 0) (WriteHeader 202 new_response), e)
        else True"
    using assms(2-5) by (simp add: lease_handler_def readHTTPBody_def GetLease_def Let_def)
qed

definition post_lease :: "string \<Rightarrow> lease_request" where
  "post_lease body = \<lparr>lqMethod = ''POST'', lqBody = body, lqReadFails = False, lqCloseFails = False, lqTTL = ''2s''\<rparr>"

definition lease_named :: "string \<Rightarrow> lease" where
  "lease_named k = \<lparr>leaseKey = k, leaseValue = [], leaseLabels = [], leaseCreated = 0\<rparr>"

theorem lease_endpoint_witness:
  "case lease_handler mini_ops lease_named (post_lease ''a'') (Map.empty, 6) of
     (w, e') \<Rightarrow> respStatus w = 201 \<and> respBody w = [show_int 7] \<and> fst e' ''/shared-lock/a'' = Some 7"
proof -
  have m: "lqMethod (post_lease ''a'') = ''POST''" "\<not> lqReadFails (post_lease ''a'')"
    "\<not> lqCloseFails (post_lease ''a'')"
    "''/shared-lock/a'' = DefaultPrefix @ leaseKey (lease_named (lqBody (post_lease ''a'')))"
    by (simp_all add: post_lease_def lease_named_def DefaultPrefix_def)
  obtain w e' where h: "lease_handler mini_ops lease_named (post_lease ''a'') (Map.empty, 6) = (w, e')"
    by (cases "lease_handler mini_ops lease_named (post_lease ''a'') (Map.empty, 6)")
  then have "respStatus w = 201 \<and> fst e' ''/shared-lock/a'' = Some 7"
    by (auto simp: lease_handler_def readHTTPBody_def post_lease_def GetLease_def mini_ops_def Let_def
        KeepLeaseOnce_def lease_named_def DefaultPrefix_def status_WriteHeader)
  then show ?thesis
    using lease_endpoint [where unmarshal = lease_named and e = "(Map.empty, 6)", OF mini_laws m] h by (auto simp: mini_holder_def)
qed

text \<open>\<^verbatim>\<open>POST /keepalive\<close>. For the text of a lease id the answer is 200 when etcd renewed the lease and
  204 when it did not; a text that is no 64-bit number is answered 500, whether or not etcd is reached.\<close>

theorem keepalive_endpoint:
  assumes "lqMethod rq = ''POST''" and "\<not> lqReadFails rq" and "\<not> lqCloseFails rq"
  shows "respStatus (fst (keepalive_handler et rq e)) =
    (if snd (ParseInt (lqBody rq)) \<noteq> None then 500
     else if fst (etKeep et e (fst (ParseInt (lqBody rq)))) then 200 else 204)"
  using assms
  by (auto simp: keepalive_handler_def readHTTPBody_def Let_def KeepLeaseOnce_etKeep case_prod_beta
      status_WriteHeader)

theorem keepalive_endpoint_witness:
  "respStatus (fst (keepalive_handler mini_ops (post_lease (show_int 7)) ([''k'' \<mapsto> 7], 7))) = 200 \<and>
   respStatus (fst (keepalive_handler mini_ops (post_lease (show_int 3)) ([''k'' \<mapsto> 7], 7))) = 204 \<and>
   respStatus (fst (keepalive_handler mini_ops (post_lease []) ([''k'' \<mapsto> 7], 7))) = 500"
proof -
  have m: "lqMethod (post_lease b) = ''POST''" "\<not> lqReadFails (post_lease b)" "\<not> lqCloseFails (post_lease b)"
    "lqBody (post_lease b) = b" for b
    by (simp_all add: post_lease_def)
  have p: "ParseInt (show_int 7) = (7, None)" "ParseInt (show_int 3) = (3, None)" "ParseInt [] = (0, Some ErrSyntax)"
    using ParseInt_show_int [of 7] ParseInt_show_int [of 3] by (simp_all add: ParseInt_def)
  show ?thesis
    using keepalive_endpoint [where rq = "post_lease (show_int 7)" and et = mini_ops and e = "([''k'' \<mapsto> 7], 7)", OF m(1-3)]
      keepalive_endpoint [where rq = "post_lease (show_int 3)" and et = mini_ops and e = "([''k'' \<mapsto> 7], 7)", OF m(1-3)]
      keepalive_endpoint [where rq = "post_lease ([])" and et = mini_ops and e = "([''k'' \<mapsto> 7], 7)", OF m(1-3)]
    by (simp add: m(4) p) (simp add: mini_ops_def)
qed

text \<open>The time to live. Whole seconds in the header reach etcd unchanged; a missing or unreadable
  header, which is meant to give ten seconds, gives 0, because the constant is taken as nanoseconds.\<close>

theorem lease_ttl_values:
  assumes "\<bar>k\<bar> < 2 ^ 33"
  shows "lease_ttl (Duration_String (k * Second)) = k \<and>
         (if ParseDuration header = None then lease_ttl header = 0 else True)"
proof
  have "is_duration (k * Second)"
    using assms by (auto simp: is_duration_def min_duration_def max_duration_def Second_def)
  then have "ParseDuration (Duration_String (k * Second)) = Some (k * Second)" by (rule ParseDuration_String)
  then show "lease_ttl (Duration_String (k * Second)) = k"
    using Seconds_whole [of k] assms by (simp add: lease_ttl_def trunc_rat_def Let_def)
  show "if ParseDuration header = None then lease_ttl header = 0 else True"
    using Seconds_tiny [of 10] by (simp add: lease_ttl_def DefaultLeaseDurationSeconds_def)
qed

theorem lease_ttl_values_witness:
  "lease_ttl (Duration_String (2 * Second)) = 2 \<and> lease_ttl [] = 0"
proof -
  have "ParseDuration [] = None" by (simp add: ParseDuration_def)
  then show ?thesis using lease_ttl_values [of 2 "[]"] by simp
qed

text \<open>A wrong method still takes a lock. A request that is not a \<^verbatim>\<open>POST\<close> is answered 400, and all the
  same the lock with the empty name is granted if it is free, under a lease nobody will renew.\<close>

theorem wrong_method_still_locks:
  assumes "etcd_laws et holder used" and "lqMethod rq \<noteq> ''POST''" and "leaseKey (unmarshal []) = []"
    and "GetLease et DefaultPrefix None (lease_ttl (lqTTL rq)) w0 e = (Some l, w1, e1)" and "l \<noteq> 0"
    and "w0 = WriteHeader 400 new_response"
  shows "case lease_handler et unmarshal rq e of
           (w, e') \<Rightarrow> respStatus w = 400 \<and> respBody w = [show_int l] \<and> holder e' DefaultPrefix = Some l"
  using GetLease_cases [OF assms(1,4)] assms(2-6)
  by (auto simp: lease_handler_def readHTTPBody_def Let_def status_WriteHeader)

theorem wrong_method_still_locks_witness:
  "case lease_handler mini_ops (\<lambda>_. lease_named []) (post_lease []\<lparr>lqMethod := ''GET''\<rparr>) (Map.empty, 6) of
     (w, e') \<Rightarrow> respStatus w = 400 \<and> fst e' DefaultPrefix = Some 7"
proof -
  let ?w = "WriteHeader 400 new_response :: string response"
  obtain w1 e1 where g: "GetLease mini_ops DefaultPrefix None (lease_ttl ''2s'') ?w (Map.empty, 6) = (Some 7, w1, e1)"
    by (simp add: GetLease_def mini_ops_def KeepLeaseOnce_def Let_def)
  show ?thesis
    using wrong_method_still_locks [OF mini_laws, of "post_lease []\<lparr>lqMethod := ''GET''\<rparr>"
        "\<lambda>_. lease_named []" ?w "(Map.empty, 6)" 7 w1 e1] g
    by (auto simp: post_lease_def lease_named_def mini_holder_def)
qed

text \<open>A body that cannot be read still takes a lock. The answer to such a \<^verbatim>\<open>POST\<close> is 500, but the handler goes on
  with what was read: if \<^verbatim>\<open>GetLease\<close> grants a lease for the key found there, the key is taken and the body
  of the answer is the id of the lease, not 0.\<close>

theorem unread_body_still_locks:
  assumes "etcd_laws et holder used" and "lqMethod rq = ''POST''" and "lqReadFails rq" and "\<not> lqCloseFails rq"
    and "key = DefaultPrefix @ leaseKey (unmarshal (lqBody rq))"
    and "GetLease et key (Some (lqBody rq)) (lease_ttl (lqTTL rq)) w0 e = (Some l, w1, e1)" and "l \<noteq> 0"
    and "w0 = WriteHeader 500 new_response"
  shows "case lease_handler et unmarshal rq e of
           (w, e') \<Rightarrow> respStatus w = 500 \<and> respBody w = [show_int l] \<and> holder e' key = Some l"
  using GetLease_cases [OF assms(1,6)] assms(2-8)
  by (auto simp: lease_handler_def readHTTPBody_def Let_def status_WriteHeader)

theorem unread_body_still_locks_witness:
  "case lease_handler mini_ops lease_named (post_lease ''a''\<lparr>lqReadFails := True\<rparr>) (Map.empty, 6) of
     (w, e') \<Rightarrow> respStatus w = 500 \<and> fst e' ''/shared-lock/a'' = Some 7"
proof -
  let ?w = "WriteHeader 500 new_response :: string response"
  obtain w1 e1 where g: "GetLease mini_ops ''/shared-lock/a'' (Some ''a'') (lease_ttl ''2s'') ?w (Map.empty, 6) = (Some 7, w1, e1)"
    by (simp add: GetLease_def mini_ops_def KeepLeaseOnce_def Let_def)
  show ?thesis
    using unread_body_still_locks [OF mini_laws, of "post_lease ''a''\<lparr>lqReadFails := True\<rparr>"
        "''/shared-lock/a''" lease_named ?w "(Map.empty, 6)" 7 w1 e1] g
    by (auto simp: post_lease_def lease_named_def mini_holder_def DefaultPrefix_def)
qed

end
