(* ===== verification/LockClient.thy ===== *)
theory LockClient
  imports LeaseServerProps Schedule
begin

text \<open>
  The client side of the shared lock: \<^verbatim>\<open>CreateLease\<close> and \<^verbatim>\<open>AcquireSharedLock\<close> of
  pkg/process/process.go, and how they fit the lock probe and the server. A command refers to
  its probe by a number into the store of probes, which its replicas share, so the lease that
  \<^verbatim>\<open>AcquireSharedLock\<close> writes is seen by all of them.
\<close>

section \<open>CreateLease\<close>

text \<open>
  What the call may meet. \<open>cwMarshal\<close> is \<^verbatim>\<open>json.Marshal\<close> (\<open>None\<close> on failure), \<open>cwPost\<close> the exchange:
  from the URL, the body and the TTL header to the status and the body, \<open>None\<close> when the request cannot
  be built, sent, or its answer not be read.
\<close>

record create_world =
  cwHostname :: "string option"
  cwNow :: gotime
  cwMarshal :: "lease \<Rightarrow> string option"
  cwPost :: "string \<Rightarrow> string \<Rightarrow> string \<Rightarrow> (int \<times> string) option"

text \<open>\<open>Inl\<close> is an error, \<open>Inr []\<close> the empty id for any status but 201.\<close>

definition CreateLease ::
  "create_world \<Rightarrow> string \<Rightarrow> 'a command_base_scheme \<Rightarrow> string \<Rightarrow> unit + string" where
  "CreateLease w SharedLockURL c ttlDuration =
     (let url = SharedLockURL @ DefaultSharedLockLeaseEndpoint;
          lease = \<lparr>leaseKey = cName c, leaseValue = [],
                   leaseLabels = [(''command'', cmd_String c),
                                  (''hostname'', case cwHostname w of None \<Rightarrow> [] | Some h \<Rightarrow> h)],
                   leaseCreated = cwNow w\<rparr>
      in case cwMarshal w lease of
           None \<Rightarrow> Inl ()
         | Some data \<Rightarrow>
             (case cwPost w url data ttlDuration of
                None \<Rightarrow> Inl ()
              | Some (status, body) \<Rightarrow> if status = 201 then Inr body else Inr []))"

section \<open>AcquireSharedLock\<close>

text \<open>What one iteration sees: whether the context is cancelled, and the surroundings.\<close>

type_synonym acquire_input = "bool \<times> create_world"

datatype acquire_end = AcqDisabled | AcqCancelled | AcqLease string | AcqWaiting

text \<open>The loop: the sleeps it makes and how it ends (\<open>AcqWaiting\<close> when the inputs end first).\<close>

fun acquire_loop ::
  "string \<Rightarrow> 'a command_base_scheme \<Rightarrow> string \<Rightarrow> duration \<Rightarrow> acquire_input list \<Rightarrow>
   duration list \<times> acquire_end" where
  "acquire_loop url c ttl ttlDuration [] = ([], AcqWaiting)"
| "acquire_loop url c ttl ttlDuration ((done, w) # inputs) =
     (if done then ([], AcqCancelled)
      else (case CreateLease w url c ttl of
              Inl _ \<Rightarrow>
                (let (sleeps, r) = acquire_loop url c ttl ttlDuration inputs in (ttlDuration # sleeps, r))
            | Inr lease \<Rightarrow>
                if lease \<noteq> [] then ([], AcqLease lease)
                else
                  (let (sleeps, r) = acquire_loop url c ttl ttlDuration inputs
                   in (ttlDuration # sleeps, r))))"

text \<open>The result: the probes (the default TTL and the lease are written to them), the state, the sleeps.\<close>

definition AcquireSharedLock ::
  "string \<Rightarrow> command \<Rightarrow> acquire_input list \<Rightarrow> probe_store \<Rightarrow> pstate \<Rightarrow>
   probe_store \<times> pstate \<times> duration list \<times> acquire_end" where
  "AcquireSharedLock url c inputs ps s =
     (case cReadiness c of
        None \<Rightarrow> (ps, s, [], AcqDisabled)
      | Some ref \<Rightarrow>
          (case pKeepSharedLock (ps ref) of
             None \<Rightarrow> (ps, s, [], AcqDisabled)
           | Some lp \<Rightarrow>
               (let lp = (if lockTTLDuration lp = [] then lp\<lparr>lockTTLDuration := ''2s''\<rparr> else lp);
                    ps = ps(ref := (ps ref)\<lparr>pKeepSharedLock := Some lp\<rparr>);
                    s = RemoveState (cName c) s;
                    ttlDuration = (case ParseDuration (lockTTLDuration lp) of
                                     None \<Rightarrow> Second * 2 | Some d \<Rightarrow> d);
                    (sleeps, r) = acquire_loop url c (lockTTLDuration lp) ttlDuration inputs
                in case r of
                     AcqLease lease \<Rightarrow>
                       (ps(ref := (ps ref)\<lparr>pKeepSharedLock := Some (lp\<lparr>lockLease := lease\<rparr>)\<rparr>),
                        s, sleeps, r)
                   | _ \<Rightarrow> (ps, s, sleeps, r))))"

section \<open>The loop in closed form\<close>

text \<open>The ids the attempts obtain, empty when an attempt fails or the lock is taken.\<close>

definition attempt :: "string \<Rightarrow> 'a command_base_scheme \<Rightarrow> string \<Rightarrow> create_world \<Rightarrow> string" where
  "attempt url c ttl w = (case CreateLease w url c ttl of Inl _ \<Rightarrow> [] | Inr l \<Rightarrow> l)"

lemma acquire_loop_first_lease:
  assumes "list_all (\<lambda>(done, w). \<not> done) inputs"
  shows "acquire_loop url c ttl d inputs =
    (let ids = map (\<lambda>(done, w). attempt url c ttl w) inputs; failed = takeWhile (\<lambda>i. i = []) ids
     in (replicate (length failed) d,
         if length failed < length ids then AcqLease (ids ! length failed) else AcqWaiting))"
  using assms
proof (induction inputs)
  case (Cons x inputs)
  obtain b w where x: "x = (b, w)" by (cases x)
  show ?case
    using Cons x by (cases "CreateLease w url c ttl") (auto simp: attempt_def Let_def)
qed simp

text \<open>C17: waiting for the lock. While its context is not cancelled, a process with a lock first withdraws
  its state and then waits until an attempt obtains a non-empty id, which it stores in its probe. Each
  earlier attempt, whether it failed or found the lock taken, is followed by a sleep of the configured
  TTL: two seconds when none is configured or when it cannot be parsed.\<close>

theorem AcquireSharedLock_first_lease:
  assumes "cReadiness c = Some ref" and "pKeepSharedLock (ps ref) = Some lp"
    and "list_all (\<lambda>(done, w). \<not> done) inputs"
  shows "AcquireSharedLock url c inputs ps s =
    (let ttl = (if lockTTLDuration lp = [] then ''2s'' else lockTTLDuration lp);
         ids = map (\<lambda>(done, w). attempt url c ttl w) inputs;
         failed = takeWhile (\<lambda>i. i = []) ids;
         obtained = length failed < length ids;
         lease = (if obtained then ids ! length failed else lockLease lp)
     in (ps(ref := (ps ref)\<lparr>pKeepSharedLock := Some \<lparr>lockLease = lease, lockTTLDuration = ttl\<rparr>\<rparr>),
         RemoveState (cName c) s,
         replicate (length failed) (case ParseDuration ttl of None \<Rightarrow> Second * 2 | Some d \<Rightarrow> d),
         if obtained then AcqLease lease else AcqWaiting))"
proof -
  let ?ttl = "if lockTTLDuration lp = [] then ''2s'' else lockTTLDuration lp"
  have lp: "(if lockTTLDuration lp = [] then lp\<lparr>lockTTLDuration := ''2s''\<rparr> else lp) =
      \<lparr>lockLease = lockLease lp, lockTTLDuration = ?ttl\<rparr>"
    by (cases lp) simp
  show ?thesis
    unfolding AcquireSharedLock_def assms(1,2) option.case Let_def lp lock_probe.simps
      acquire_loop_first_lease [OF assms(3), where c = c]
    by (simp add: mult.commute)
qed

definition refusing :: create_world where
  "refusing = \<lparr>cwHostname = None, cwNow = 0, cwMarshal = (\<lambda>l. Some (leaseKey l)), cwPost = (\<lambda>_ _ _. None)\<rparr>"

definition granting :: "string \<Rightarrow> create_world" where
  "granting i = refusing\<lparr>cwPost := (\<lambda>_ _ _. Some (201, i))\<rparr>"

definition locked_command :: "proc_name \<Rightarrow> int \<Rightarrow> command" where
  "locked_command n replicas =
     \<lparr>cName = n, cEntrypoint = ''app'', cArgs = [], cEnvs = gempty, cEnvsFile = [], cRestartPolicy = [],
      cLogFormat = [], cDir = [], cPromTarget = [], cSysProcAttr = None, cReplicas = replicas,
      cMemoryLimitMB = 0, cReadiness = Some 0, cPostStart = None\<rparr>"

definition locked_store :: probe_store where
  "locked_store = (\<lambda>_. empty_probe\<lparr>pKeepSharedLock := Some \<lparr>lockLease = [], lockTTLDuration = []\<rparr>\<rparr>)"

theorem AcquireSharedLock_first_lease_witness:
  "\<exists>ps. AcquireSharedLock ''u'' (locked_command ''a'' 0)
       [(False, refusing), (False, refusing\<lparr>cwPost := \<lambda>_ _ _. Some (202, ''0'')\<rparr>), (False, granting ''7'')]
       locked_store (NewState [] False) =
     (ps, RemoveState ''a'' (NewState [] False), [2 * Second, 2 * Second], AcqLease ''7'') \<and>
     pKeepSharedLock (ps 0) = Some \<lparr>lockLease = ''7'', lockTTLDuration = ''2s''\<rparr>"
proof -
  have c: "cReadiness (locked_command ''a'' 0) = Some 0" "cName (locked_command ''a'' 0) = ''a''"
    "pKeepSharedLock (locked_store 0) = Some \<lparr>lockLease = [], lockTTLDuration = []\<rparr>"
    by (simp_all add: locked_command_def locked_store_def)
  have "show_nat 2 = ''2''" by code_simp
  then have "parse_loop 0 ''2s'' = Some 2000000000"
    using parse_loop_unit [of "''s''" 1000000000 0 2 "[]"] by (simp add: stops_def)
  then have p: "ParseDuration ''2s'' = Some (2 * Second)"
    by (simp add: ParseDuration_def Second_def)
  have l: "list_all (\<lambda>(done, w). \<not> done)
      [(False, refusing), (False, refusing\<lparr>cwPost := \<lambda>_ _ _. Some (202, ''0'')\<rparr>), (False, granting ''7'')]"
    by simp
  from AcquireSharedLock_first_lease [where ps = locked_store, OF c(1,3) l] c(2) p show ?thesis
    by (simp add: attempt_def CreateLease_def refusing_def granting_def Let_def)
qed

section \<open>Replicas share their lease\<close>

text \<open>A successful wait leaves the lease in the probe the command refers to.\<close>

lemma AcquireSharedLock_lease:
  assumes "AcquireSharedLock url c inputs ps s = (ps', s', sleeps, AcqLease l)" and "cReadiness c = Some ref"
  shows "\<exists>lp. pKeepSharedLock (ps' ref) = Some lp \<and> lockLease lp = l"
proof (cases "pKeepSharedLock (ps ref)")
  case None
  then show ?thesis using assms by (simp add: AcquireSharedLock_def)
next
  case (Some lp)
  let ?lp = "if lockTTLDuration lp = [] then lp\<lparr>lockTTLDuration := ''2s''\<rparr> else lp"
  obtain sl r where loop: "acquire_loop url c (lockTTLDuration ?lp)
      (case ParseDuration (lockTTLDuration ?lp) of None \<Rightarrow> Second * 2 | Some d \<Rightarrow> d) inputs = (sl, r)"
    by (cases "acquire_loop url c (lockTTLDuration ?lp)
      (case ParseDuration (lockTTLDuration ?lp) of None \<Rightarrow> Second * 2 | Some d \<Rightarrow> d) inputs")
  show ?thesis
    using assms Some loop by (cases r) (auto simp: AcquireSharedLock_def Let_def)
qed

text \<open>What a command finds in its probe: the lease it keeps alive, and the verdict of its lock probe.\<close>

definition lease_in :: "probe_store \<Rightarrow> command \<Rightarrow> string option" where
  "lease_in ps d =
     (case cReadiness d of None \<Rightarrow> None | Some ref \<Rightarrow> map_option lockLease (pKeepSharedLock (ps ref)))"

definition lock_verdict :: "probe_world \<Rightarrow> string \<Rightarrow> probe_store \<Rightarrow> command \<Rightarrow> bool option" where
  "lock_verdict w url ps d =
     (case cReadiness d of None \<Rightarrow> None
      | Some ref \<Rightarrow> map_option (LockProbe_Run w url) (pKeepSharedLock (ps ref)))"

lemma AcquireSharedLock_lease_in:
  assumes "AcquireSharedLock url c inputs ps s = (ps', s', sleeps, AcqLease l)" and "cReadiness d = cReadiness c"
  shows "lease_in ps' d = Some l"
proof (cases "cReadiness c")
  case None
  then show ?thesis using assms(1) by (simp add: AcquireSharedLock_def)
next
  case (Some ref)
  then show ?thesis using AcquireSharedLock_lease [OF assms(1) Some] assms(2) by (auto simp: lease_in_def)
qed

lemma launched_readiness:
  "d \<in> set (launched (NewSchedule [c] skip wg)) \<Longrightarrow> cReadiness d = cReadiness c"
  by (auto simp: launched_NewSchedule selected_def expand_def replicaCommand_def split: if_splits)

text \<open>C35: the replicas of a command have one lease between them. When one started replica has acquired the
  lock, every replica keeps its lease alive; when another acquires its own lock afterwards, the lease
  of the first is lost to all of them: every replica, the first included, then asks the server to renew
  the lease of the second and is healthy according to that answer.\<close>

theorem replicas_share_lease:
  assumes "c1 \<in> set (launched (NewSchedule [c] skip wg))" and "c2 \<in> set (launched (NewSchedule [c] skip wg))"
    and "AcquireSharedLock url c1 in1 ps s = (ps1, s1, sl1, AcqLease l1)"
    and "AcquireSharedLock url c2 in2 ps1 s2 = (ps2, s3, sl2, AcqLease l2)"
  shows "list_all (\<lambda>d. lease_in ps1 d = Some l1 \<and> lease_in ps2 d = Some l2 \<and>
      lock_verdict w url ps2 d =
        Some (case wHttpPost w (url @ DefaultSharedLockKeepAliveEndpoint) l2 of
                None \<Rightarrow> False | Some code \<Rightarrow> code \<noteq> 204))
    (launched (NewSchedule [c] skip wg))"
  unfolding list_all_iff
proof (intro ballI conjI)
  fix d assume d: "d \<in> set (launched (NewSchedule [c] skip wg))"
  have same: "cReadiness d = cReadiness c1" "cReadiness d = cReadiness c2"
    using launched_readiness d assms(1,2) by metis+
  show "lease_in ps1 d = Some l1" using AcquireSharedLock_lease_in [OF assms(3) same(1)] .
  show l2: "lease_in ps2 d = Some l2" using AcquireSharedLock_lease_in [OF assms(4) same(2)] .
  then show "lock_verdict w url ps2 d =
      Some (case wHttpPost w (url @ DefaultSharedLockKeepAliveEndpoint) l2 of None \<Rightarrow> False | Some code \<Rightarrow> code \<noteq> 204)"
    by (auto simp: lease_in_def lock_verdict_def LockProbe_Run_def split: option.splits)
qed

theorem replicas_share_lease_witness:
  "\<exists>c1 c2 ps1 s1 sl1 ps2 s3 sl2.
     launched (NewSchedule [locked_command ''a'' 2] [] 1) = [c1, c2] \<and> cName c1 \<noteq> cName c2 \<and>
     AcquireSharedLock ''u'' c1 [(False, granting ''5'')] locked_store (NewState [] False) =
       (ps1, s1, sl1, AcqLease ''5'') \<and>
     AcquireSharedLock ''u'' c2 [(False, granting ''6'')] ps1 s1 = (ps2, s3, sl2, AcqLease ''6'') \<and>
     lease_in ps1 c1 = Some ''5'' \<and> lease_in ps2 c1 = Some ''6''"
proof -
  let ?c = "locked_command ''a'' 2"
  let ?c1 = "replicaCommand ?c 0" and ?c2 = "replicaCommand ?c 1"
  have l: "launched (NewSchedule [?c] [] 1) = [?c1, ?c2]"
    by (simp add: NewSchedule_def Let_def launch_def locked_command_def numeral_2_eq_2)
  have n: "cName ?c1 \<noteq> cName ?c2" by (simp add: replicaCommand_def replica_name_inj)
  have r: "cReadiness (replicaCommand ?c k) = Some 0" for k
    by (simp add: replicaCommand_def locked_command_def)
  obtain ps1 s1 sl1 where a: "AcquireSharedLock ''u'' ?c1 [(False, granting ''5'')]
      locked_store (NewState [] False) = (ps1, s1, sl1, AcqLease ''5'')" and k: "pKeepSharedLock (ps1 0) \<noteq> None"
    by (simp add: AcquireSharedLock_def r locked_store_def granting_def refusing_def CreateLease_def Let_def)
  obtain ps2 s3 sl2 where b: "AcquireSharedLock ''u'' ?c2 [(False, granting ''6'')] ps1 s1 =
      (ps2, s3, sl2, AcqLease ''6'')"
    using k by (auto simp: AcquireSharedLock_def r granting_def refusing_def CreateLease_def Let_def)
  have m: "?c1 \<in> set (launched (NewSchedule [?c] [] 1))" "?c2 \<in> set (launched (NewSchedule [?c] [] 1))"
    by (simp_all add: l)
  have "lease_in ps1 ?c1 = Some ''5'' \<and> lease_in ps2 ?c1 = Some ''6''"
    using replicas_share_lease [OF m a b, of down_world] by (simp add: l)
  then show ?thesis using l n a b by blast
qed

section \<open>Client and server together\<close>

definition post_request :: "string \<Rightarrow> string \<Rightarrow> lease_request" where
  "post_request body ttl =
     \<lparr>lqMethod = ''POST'', lqBody = body, lqReadFails = False, lqCloseFails = False, lqTTL = ttl\<rparr>"

text \<open>C14: the lock from end to end. Let the client's posts reach the handlers of the server undisturbed, and
  the JSON decoder read back the key of whatever the encoder writes. If \<^verbatim>\<open>CreateLease\<close> returns a non-empty
  id, then what was sent is the encoding of a lease request under the name of the process, the id is
  that of a lease which now holds the key of that name, and from then on the lock probe is healthy
  exactly when etcd renews that lease.\<close>

theorem lock_end_to_end:
  assumes laws: "etcd_laws et holder used"
    and post: "\<forall>data. cwPost cw (url @ DefaultSharedLockLeaseEndpoint) data ttl =
          (let a = fst (lease_handler et unmarshal (post_request data ttl) e) in Some (respStatus a, concat (respBody a)))"
    and json: "\<forall>l data. cwMarshal cw l = Some data \<longrightarrow> leaseKey (unmarshal data) = leaseKey l"
    and lease: "CreateLease cw url c ttl = Inr i" "i \<noteq> []"
    and probe: "\<forall>body. wHttpPost w (url @ DefaultSharedLockKeepAliveEndpoint) body =
          Some (respStatus (fst (keepalive_handler et (post_request body []) e2)))"
  shows "\<exists>data l.
      cwMarshal cw \<lparr>leaseKey = cName c, leaseValue = [],
        leaseLabels = [(''command'', cmd_String c), (''hostname'', case cwHostname cw of None \<Rightarrow> [] | Some h \<Rightarrow> h)],
        leaseCreated = cwNow cw\<rparr> = Some data \<and>
      i = show_int l \<and>
      holder (snd (lease_handler et unmarshal (post_request data ttl) e)) (DefaultPrefix @ cName c) = Some l \<and>
      LockProbe_Run w url \<lparr>lockLease = i, lockTTLDuration = ttl\<rparr> = fst (etKeep et e2 l)"
proof -
  let ?lease = "\<lparr>leaseKey = cName c, leaseValue = [],
      leaseLabels = [(''command'', cmd_String c), (''hostname'', case cwHostname cw of None \<Rightarrow> [] | Some h \<Rightarrow> h)],
      leaseCreated = cwNow cw\<rparr>"
  obtain data where data: "cwMarshal cw ?lease = Some data"
    using lease(1) by (auto simp: CreateLease_def Let_def split: option.splits)
  have key: "leaseKey (unmarshal data) = cName c" using json data by force
  obtain a e' where h: "lease_handler et unmarshal (post_request data ttl) e = (a, e')"
    by (cases "lease_handler et unmarshal (post_request data ttl) e")
  have st: "respStatus a = 201" "i = concat (respBody a)"
    using lease post data h by (auto simp: CreateLease_def Let_def split: if_splits)
  obtain r' w' e'' where g: "GetLease et (DefaultPrefix @ cName c) (Some data) (lease_ttl ttl) new_response e = (r', w', e'')"
    by (metis prod_cases3)
  have a: "a = WriteBody (show_int (case r' of None \<Rightarrow> 0 | Some l \<Rightarrow> l))
        (if r' = None then WriteHeader 500 w' else w')" "e' = e''"
    using h g key by (auto simp: lease_handler_def readHTTPBody_def post_request_def Let_def)
  from GetLease_cases [OF laws g] st(1) a
  obtain l where l: "r' = Some l" "holder e'' = (holder e)(DefaultPrefix @ cName c := Some l)"
      "w' = WriteHeader 201 new_response" and range: "- (2 ^ 63) \<le> l" "l < 2 ^ 63"
    by (auto simp: status_WriteHeader)
  then have i: "i = show_int l" using st(2) a(1) by simp
  have "LockProbe_Run w url \<lparr>lockLease = i, lockTTLDuration = ttl\<rparr> = fst (etKeep et e2 l)"
    using probe ParseInt_show_int [OF range] i
    by (auto simp: LockProbe_Run_def keepalive_handler_def readHTTPBody_def post_request_def Let_def
        KeepLeaseOnce_etKeep case_prod_beta status_WriteHeader)
  then show ?thesis using data i l(2) a(2) h by auto
qed

text \<open>The two handlers behind one address, and a client of it whose encoder writes the key alone.\<close>

definition mini_client :: "mini_etcd \<Rightarrow> create_world" where
  "mini_client e =
     \<lparr>cwHostname = None, cwNow = 0, cwMarshal = (\<lambda>l. Some (leaseKey l)),
      cwPost = (\<lambda>url data ttl.
        (let a = fst (lease_handler mini_ops lease_named (post_request data ttl) e)
         in Some (respStatus a, concat (respBody a))))\<rparr>"

definition mini_prober :: "mini_etcd \<Rightarrow> probe_world" where
  "mini_prober e = down_world\<lparr>wHttpPost := (\<lambda>url body.
     Some (respStatus (fst (keepalive_handler mini_ops (post_request body []) e))))\<rparr>"

theorem lock_end_to_end_witness:
  "CreateLease (mini_client (Map.empty, 6)) ''u'' (locked_command ''a'' 0) ''2s'' = Inr (show_int 7) \<and>
   mini_holder (snd (lease_handler mini_ops lease_named (post_request ''a'' ''2s'') (Map.empty, 6)))
     (DefaultPrefix @ ''a'') = Some 7 \<and>
   LockProbe_Run (mini_prober ([DefaultPrefix @ ''a'' \<mapsto> 7], 7)) ''u'' \<lparr>lockLease = show_int 7, lockTTLDuration = ''2s''\<rparr>"
proof -
  have c: "CreateLease (mini_client (Map.empty, 6)) ''u'' (locked_command ''a'' 0) ''2s'' = Inr (show_int 7)"
    by (simp add: CreateLease_def mini_client_def lease_handler_def readHTTPBody_def GetLease_def mini_ops_def
        Let_def KeepLeaseOnce_def lease_named_def post_request_def status_WriteHeader)
  have ne: "show_int 7 \<noteq> []" by (simp add: show_int_def)
  have n: "cName (locked_command ''a'' 0) = ''a''" by (simp add: locked_command_def)
  have world: "\<forall>data. cwPost (mini_client (Map.empty, 6)) (''u'' @ DefaultSharedLockLeaseEndpoint) data ''2s'' =
      (let a = fst (lease_handler mini_ops lease_named (post_request data ''2s'') (Map.empty, 6))
       in Some (respStatus a, concat (respBody a)))"
    "\<forall>l data. cwMarshal (mini_client (Map.empty, 6)) l = Some data \<longrightarrow> leaseKey (lease_named data) = leaseKey l"
    "\<forall>body. wHttpPost (mini_prober ([DefaultPrefix @ ''a'' \<mapsto> 7], 7)) (''u'' @ DefaultSharedLockKeepAliveEndpoint) body =
      Some (respStatus (fst (keepalive_handler mini_ops (post_request body []) ([DefaultPrefix @ ''a'' \<mapsto> 7], 7))))"
    by (simp_all add: mini_client_def lease_named_def mini_prober_def)
  from lock_end_to_end [OF mini_laws world(1,2) c ne world(3)] obtain data l where
    "cwMarshal (mini_client (Map.empty, 6)) \<lparr>leaseKey = ''a'', leaseValue = [],
       leaseLabels = [(''command'', cmd_String (locked_command ''a'' 0)), (''hostname'',
         case cwHostname (mini_client (Map.empty, 6)) of None \<Rightarrow> [] | Some h \<Rightarrow> h)],
       leaseCreated = cwNow (mini_client (Map.empty, 6))\<rparr> = Some data"
    "show_int 7 = show_int l"
    "mini_holder (snd (lease_handler mini_ops lease_named (post_request data ''2s'') (Map.empty, 6))) (DefaultPrefix @ ''a'') = Some l"
    "LockProbe_Run (mini_prober ([DefaultPrefix @ ''a'' \<mapsto> 7], 7)) ''u'' \<lparr>lockLease = show_int 7, lockTTLDuration = ''2s''\<rparr> =
       fst (etKeep mini_ops ([DefaultPrefix @ ''a'' \<mapsto> 7], 7) l)"
    unfolding n by blast
  moreover from this(1) have "data = ''a''" by (simp add: mini_client_def)
  moreover have "l = 7" using calculation(2) by simp
  ultimately show ?thesis using c by (simp add: mini_ops_def)
qed

end
