(* ===== verification/ProcStat.thy ===== *)
theory ProcStat
  imports ProcessConfig
begin

text \<open>
  Resource usage: reading /proc/<pid>/stat (pkg/stat/stat.go) and the collector of each process,
  which also enforces the memory limit (pkg/process/process_stats.go). The contents of the file are a
  parameter; floating-point arithmetic is that of \<open>GoFloat\<close>.
\<close>

section \<open>Numbers\<close>

text \<open>
  \<^verbatim>\<open>strconv.ParseFloat(s, 64)\<close> on decimal texts: a sign, digits with at most one point, an exponent;
  \<open>None\<close> for another text or for a value beyond the largest float. (The spellings of infinity, NaN and
  hexadecimal numbers, which a stat file does not contain, are not accepted here.)
\<close>

definition strip_sign :: "string \<Rightarrow> bool \<times> string" where
  "strip_sign s =
     (case s of [] \<Rightarrow> (False, [])
      | c # t \<Rightarrow> if c = CHR ''-'' then (True, t) else if c = CHR ''+'' then (False, t) else (False, s))"

definition parse_exponent :: "string \<Rightarrow> int option" where
  "parse_exponent s =
     (case s of [] \<Rightarrow> Some 0
      | c # t \<Rightarrow>
          if c = CHR ''e'' \<or> c = CHR ''E'' then
            (case strip_sign t of
               (neg, ds) \<Rightarrow>
                 if ds \<noteq> [] \<and> list_all is_digit ds
                 then Some (if neg then - int (digits_val ds) else int (digits_val ds)) else None)
          else None)"

definition scale10 :: "rat \<Rightarrow> int \<Rightarrow> rat" where
  "scale10 q e = (if e \<ge> 0 then q * 10 ^ nat e else q / 10 ^ nat (- e))"

definition ParseFloat :: "string \<Rightarrow> rat option" where
  "ParseFloat s =
     (let (neg, t) = strip_sign s;
          ip = takeWhile is_digit t;
          t = dropWhile is_digit t;
          (fp, t) = (case t of
                       c # u \<Rightarrow> if c = CHR ''.'' then (takeWhile is_digit u, dropWhile is_digit u) else ([], t)
                     | [] \<Rightarrow> ([], []))
      in if ip @ fp = [] then None
         else (case parse_exponent t of
                 None \<Rightarrow> None
               | Some e \<Rightarrow>
                   (let q = rnd64 (scale10 (of_nat (digits_val (ip @ fp))) (e - int (length fp)))
                    in if q \<ge> 2 ^ 1024 then None else Some (if neg then - q else q))))"

lemma ParseFloat_show_nat: "n < 2 ^ 53 \<Longrightarrow> ParseFloat (show_nat n) = Some (of_nat n)"
proof -
  assume n: "n < 2 ^ 53"
  have d: "\<forall>c \<in> set (show_nat n). is_digit c" using show_nat_digits .
  obtain c t where s: "show_nat n = c # t" using show_nat_nonempty [of n] by (cases "show_nat n") auto
  have "is_digit c" using d s by simp
  then have "c \<noteq> CHR ''-''" "c \<noteq> CHR ''+''" by (auto simp: is_digit_def)
  then have "strip_sign (show_nat n) = (False, show_nat n)" by (simp add: strip_sign_def s)
  moreover have "takeWhile is_digit (show_nat n) = show_nat n" "dropWhile is_digit (show_nat n) = []"
    using d by (simp_all only: takeWhile_eq_all_conv dropWhile_eq_Nil_conv)
  moreover have "\<not> (2 ^ 1024 \<le> (of_nat n :: rat))"
  proof -
    have "n < 2 ^ 1024" using n by (rule less_le_trans) (simp add: power_increasing)
    then show ?thesis by (metis not_le of_nat_less_iff of_nat_numeral of_nat_power)
  qed
  ultimately show ?thesis
    using rnd64_exact_nat [OF n]
    by (simp del: takeWhile_eq_all_conv dropWhile_eq_Nil_conv add: ParseFloat_def Let_def case_prod_beta parse_exponent_def scale10_def)
qed

text \<open>\<^verbatim>\<open>sTof64\<close>: a text that is no number counts as 0.\<close>

definition sTof64 :: "string \<Rightarrow> rat" where
  "sTof64 input = (case ParseFloat input of None \<Rightarrow> 0 | Some v \<Rightarrow> v)"

section \<open>The stat file\<close>

definition CLKTCK :: rat where "CLKTCK = 100"
definition PAGESIZE :: rat where "PAGESIZE = 4096"

record proc_stat =
  statPid :: string
  clktck :: rat
  pageSize :: rat
  cpuSeconds :: rat

definition NewProcStats :: "pid \<Rightarrow> rat \<Rightarrow> rat \<Rightarrow> proc_stat" where
  "NewProcStats p clk page =
     \<lparr>statPid = show_int p, clktck = (if clk = 0 then CLKTCK else clk),
      pageSize = (if page = 0 then PAGESIZE else page), cpuSeconds = 0\<rparr>"

datatype stat_error = CannotRead | NoParenthesis | CannotParse

text \<open>Seconds of CPU, seconds since the last call, bytes of memory.\<close>

definition Stat ::
  "(string \<Rightarrow> string option) \<Rightarrow> proc_stat \<Rightarrow> (stat_error + rat \<times> rat \<times> rat) \<times> proc_stat" where
  "Stat ReadFile p =
     (case ReadFile (''/proc/'' @ statPid p @ ''/stat'') of
        None \<Rightarrow> (Inl CannotRead, p)
      | Some statFileString \<Rightarrow>
          (case Index statFileString (CHR '')'') of
             None \<Rightarrow> (Inl NoParenthesis, p)
           | Some i \<Rightarrow>
               (let columns = Split (drop (i + 1) statFileString) (CHR '' '') in
                if length columns < 23 then (Inl CannotParse, p)
                else
                  (let cpuSec = f64_div (f64_add (sTof64 (columns ! 12)) (sTof64 (columns ! 13))) (clktck p);
                       memBytes = f64_mul (sTof64 (columns ! 22)) (pageSize p);
                       delta = f64_sub cpuSec (cpuSeconds p)
                   in (Inr (cpuSec, delta, memBytes), p\<lparr>cpuSeconds := cpuSec\<rparr>)))))"

section \<open>The collector\<close>

definition GetStatsPeriodSeconds :: int where "GetStatsPeriodSeconds = 10"
definition GetStatsFailureThreshold :: int where "GetStatsFailureThreshold = 3"

text \<open>The actions in the order of the program; \<open>SWrite\<close> is a call of a method of the shared state.\<close>

datatype stats_action =
    SWrite state_op | SAddCpu rat | SSetCpu rat | SSetMem rat | SKill pid | SCountOom | SSleep duration

datatype stats_end = StatsUnsupported | StatsCancelled | StatsGaveUp | StatsRunning

text \<open>
  The loop over what the iterations meet: whether the context is cancelled, and the files. The state is
  the shared state with the kill flags, \<open>failed\<close> the number of failures in a row.
\<close>

fun GetStats_loop ::
  "'a command_base_scheme \<Rightarrow> pid \<Rightarrow> (bool \<times> (string \<Rightarrow> string option)) list \<Rightarrow> proc_stat \<Rightarrow> int \<Rightarrow>
   pstate \<Rightarrow> pstate \<times> stats_action list \<times> stats_end" where
  "GetStats_loop c p [] st failed s = (s, [], StatsRunning)"
| "GetStats_loop c p ((cancelled, ReadFile) # inputs) st failed s =
     (if cancelled then (s, [], StatsCancelled)
      else
        (let (r, st) = Stat ReadFile st;
             (err, cpuSecs, cpuDelta, memoryUsage) =
               (case r of Inl _ \<Rightarrow> (True, 0, 0, 0) | Inr (a, b, m) \<Rightarrow> (False, a, b, m));
             total = f64_add (f64_add cpuSecs cpuDelta) memoryUsage
         in if err \<or> total = 0 then
              (let failed = failed + 1
               in if failed \<ge> GetStatsFailureThreshold then (s, [], StatsGaveUp)
                  else (let (s, acts, e) = GetStats_loop c p inputs st failed s in (s, SSleep Second # acts, e)))
            else if total = 0 then
              (let (s, acts, e) = GetStats_loop c p inputs st failed s
               in (s, SSleep (Second * GetStatsPeriodSeconds) # acts, e))
            else
              (let oom = (cMemoryLimitMB c > 0 \<and> f64_div memoryUsage 1000000 > cMemoryLimitMB c);
                   s = (if oom then SetKillState (cName c) True s else s);
                   (s, acts, e) = GetStats_loop c p inputs st 0 s
               in (s, [SAddCpu cpuDelta, SSetCpu cpuSecs, SSetMem memoryUsage] @
                      (if oom then [SWrite (OpKill (cName c) True), SKill p, SCountOom] else []) @
                      SSleep (Second * GetStatsPeriodSeconds) # acts, e))))"

definition GetStats ::
  "string \<Rightarrow> 'a command_base_scheme \<Rightarrow> pid \<Rightarrow> (bool \<times> (string \<Rightarrow> string option)) list \<Rightarrow> pstate \<Rightarrow>
   pstate \<times> stats_action list \<times> stats_end" where
  "GetStats goos c p inputs s =
     (if goos \<noteq> ''linux'' then (s, [], StatsUnsupported)
      else GetStats_loop c p inputs (NewProcStats p 0 0) 0 s)"

section \<open>Which fields are read\<close>

lemma Stat_columns:
  assumes "ReadFile (''/proc/'' @ statPid p @ ''/stat'') = Some str" and "Index str (CHR '')'') = Some i"
    and "Split (drop (i + 1) str) (CHR '' '') = columns" and "23 \<le> length columns"
  shows "\<exists>cpu. cpu = f64_div (f64_add (sTof64 (columns ! 12)) (sTof64 (columns ! 13))) (clktck p) \<and>
    Stat ReadFile p =
      (Inr (cpu, f64_sub cpu (cpuSeconds p), f64_mul (sTof64 (columns ! 22)) (pageSize p)),
       p\<lparr>cpuSeconds := cpu\<rparr>)"
  using assms by (simp add: Stat_def Let_def)

lemma stat_index:
  "CHR '')'' \<notin> set prefix \<Longrightarrow> Index (prefix @ '')'' @ '' '' @ t) (CHR '')'') = Some (length prefix)"
  using Index_append by simp

lemma stat_split:
  assumes "list_all (\<lambda>f. CHR '' '' \<notin> set f) cols" and "22 \<le> length cols"
  shows "Split (drop (length prefix + 1) (prefix @ '')'' @ '' '' @ Join cols '' '')) (CHR '' '') = [] # cols"
proof -
  have "cols \<noteq> []" using assms(2) by auto
  then show ?thesis using assms(1) Split_Join [of cols "CHR '' ''"] by (simp add: list_all_iff)
qed

text \<open>A closing parenthesis in the command name. The code takes the first one, so when the name contains a
  closing parenthesis followed by a space, as in \<^verbatim>\<open>(a) b)\<close>, every field is read one place too early: the
  CPU time is made of cmajflt and utime (fields 13 and 14), and the memory of vsize (field 23, in bytes)
  times the page size.\<close>

theorem Stat_parenthesis_in_name:
  assumes "ReadFile (''/proc/'' @ statPid p @ ''/stat'') =
             Some (prefix @ '')'' @ '' '' @ word @ '')'' @ '' '' @ Join cols '' '')"
    and "CHR '')'' \<notin> set prefix" and "CHR '' '' \<notin> set word"
    and "list_all (\<lambda>f. CHR '' '' \<notin> set f) cols" and "22 \<le> length cols"
  shows "\<exists>cpu. cpu = f64_div (f64_add (sTof64 (cols ! 10)) (sTof64 (cols ! 11))) (clktck p) \<and>
    Stat ReadFile p =
      (Inr (cpu, f64_sub cpu (cpuSeconds p), f64_mul (sTof64 (cols ! 20)) (pageSize p)),
       p\<lparr>cpuSeconds := cpu\<rparr>)"
proof -
  have ne: "cols \<noteq> []" using assms(5) by auto
  then have j: "word @ '')'' @ '' '' @ Join cols '' '' = Join ((word @ '')'') # cols) '' ''"
    by (cases cols) simp_all
  have ok: "list_all (\<lambda>f. CHR '' '' \<notin> set f) ((word @ '')'') # cols)" "22 \<le> length ((word @ '')'') # cols)"
    using assms(3-5) by simp_all
  have contents: "ReadFile (''/proc/'' @ statPid p @ ''/stat'') =
      Some (prefix @ '')'' @ '' '' @ Join ((word @ '')'') # cols) '' '')"
    using assms(1) unfolding j .
  from Stat_columns [of ReadFile p, OF contents stat_index [OF assms(2)] stat_split [OF ok, of prefix]] assms(5)
  show ?thesis by simp
qed

text \<open>C28: the fields of the stat file. In a file whose command name contains no closing parenthesis, with
  at least 22 space-separated fields after the name, the CPU time is the sum of utime and stime (fields
  14 and 15) over the clock rate and the memory is rss (field 24) times the page size; the second
  component is the growth since the previous call.\<close>

theorem Stat_reads_fields:
  assumes "ReadFile (''/proc/'' @ statPid p @ ''/stat'') =
             Some (prefix @ '')'' @ '' '' @ Join cols '' '')"
    and "CHR '')'' \<notin> set prefix" and "list_all (\<lambda>f. CHR '' '' \<notin> set f) cols" and "22 \<le> length cols"
  shows "\<exists>cpu. cpu = f64_div (f64_add (sTof64 (cols ! 11)) (sTof64 (cols ! 12))) (clktck p) \<and>
    Stat ReadFile p =
      (Inr (cpu, f64_sub cpu (cpuSeconds p), f64_mul (sTof64 (cols ! 21)) (pageSize p)),
       p\<lparr>cpuSeconds := cpu\<rparr>)"
  using Stat_columns [of ReadFile p, OF assms(1) stat_index [OF assms(2), of "Join cols '' ''"] stat_split [OF assms(3,4), of prefix]] assms(4) by simp

definition demo_fields :: "string list" where
  "demo_fields = replicate 11 ''0'' @ [show_nat 150, show_nat 50] @ replicate 8 ''0'' @ [show_nat 250000]"

definition demo_file :: "string \<Rightarrow> string option" where
  "demo_file path = Some (''1 (app'' @ '')'' @ '' '' @ Join demo_fields '' '')"

lemma demo_fields_ok:
  "list_all (\<lambda>f. CHR '' '' \<notin> set f) demo_fields" "22 \<le> length demo_fields"
  "sTof64 (demo_fields ! 11) = 150" "sTof64 (demo_fields ! 12) = 50" "sTof64 (demo_fields ! 21) = 250000"
proof -
  have "CHR '' '' \<notin> set (show_nat n)" for n
    using show_nat_digits [of n] by (auto simp: is_digit_def)
  then show "list_all (\<lambda>f. CHR '' '' \<notin> set f) demo_fields"
    by (simp add: demo_fields_def list_all_iff)
  show "22 \<le> length demo_fields" by (simp add: demo_fields_def)
  show "sTof64 (demo_fields ! 11) = 150" "sTof64 (demo_fields ! 12) = 50" "sTof64 (demo_fields ! 21) = 250000"
    using ParseFloat_show_nat [of 150] ParseFloat_show_nat [of 50] ParseFloat_show_nat [of 250000]
    by (simp_all add: demo_fields_def sTof64_def nth_append)
qed

lemma demo_values:
  "cpu = f64_div (f64_add 150 50) (clktck (NewProcStats 1 0 0)) \<Longrightarrow>
   cpu = 2 \<and> f64_sub cpu (cpuSeconds (NewProcStats 1 0 0)) = 2 \<and>
   f64_mul 250000 (pageSize (NewProcStats 1 0 0)) = 1024000000"
  by (simp add: f64_div_def f64_add_def f64_sub_def f64_mul_def NewProcStats_def CLKTCK_def PAGESIZE_def)

lemma demo_Stat:
  "Stat demo_file (NewProcStats 1 0 0) = (Inr (2, 2, 1024000000), (NewProcStats 1 0 0)\<lparr>cpuSeconds := 2\<rparr>)"
proof -
  have "demo_file (''/proc/'' @ statPid (NewProcStats 1 0 0) @ ''/stat'') =
      Some (''1 (app'' @ '')'' @ '' '' @ Join demo_fields '' '')"
    by (simp add: demo_file_def)
  from Stat_columns [of demo_file "NewProcStats 1 0 0", OF this stat_index [of "''1 (app''" "Join demo_fields '' ''"] stat_split [OF demo_fields_ok(1,2), of "''1 (app''"]]
    demo_fields_ok(2-5) demo_values
  show ?thesis by auto
qed

theorem Stat_reads_fields_witness:
  "fst (Stat demo_file (NewProcStats 1 0 0)) = Inr (2, 2, 1024000000)"
proof -
  have "demo_file (''/proc/'' @ statPid (NewProcStats 1 0 0) @ ''/stat'') =
      Some (''1 (app'' @ '')'' @ '' '' @ Join demo_fields '' '')"
    by (simp add: demo_file_def)
  from Stat_reads_fields [of demo_file "NewProcStats 1 0 0" "''1 (app''" demo_fields, OF this _ demo_fields_ok(1,2)]
    demo_fields_ok(2-5) demo_values
  show ?thesis by auto
qed

section \<open>The memory limit\<close>

text \<open>The collector reads the same memory whatever it remembers of earlier CPU times.\<close>

definition memory_read :: "proc_stat \<Rightarrow> (string \<Rightarrow> string option) \<Rightarrow> rat option" where
  "memory_read st ReadFile = (case fst (Stat ReadFile st) of Inl _ \<Rightarrow> None | Inr (_, _, m) \<Rightarrow> Some m)"

lemma Stat_keeps:
  "Stat ReadFile st = (r, st') \<Longrightarrow>
   statPid st' = statPid st \<and> clktck st' = clktck st \<and> pageSize st' = pageSize st"
  by (auto simp: Stat_def Let_def split: option.splits if_splits)

lemma memory_read_cong:
  "statPid st' = statPid st \<Longrightarrow> pageSize st' = pageSize st \<Longrightarrow> memory_read st' f = memory_read st f"
  by (auto simp: memory_read_def Stat_def Let_def split: option.split)

definition over_limit :: "'a command_base_scheme \<Rightarrow> rat \<Rightarrow> bool" where
  "over_limit c m \<longleftrightarrow> cMemoryLimitMB c > 0 \<and> f64_div m 1000000 > cMemoryLimitMB c"

lemma GetStats_loop_Cons:
  assumes "Stat f st = (r, st')"
  shows "GetStats_loop c p ((cancelled, f) # inputs) st failed s =
    (if cancelled then (s, [], StatsCancelled)
     else (case r of
        Inl _ \<Rightarrow> if failed + 1 \<ge> 3 then (s, [], StatsGaveUp)
                 else (let (s', acts, e) = GetStats_loop c p inputs st' (failed + 1) s in (s', SSleep Second # acts, e))
      | Inr (cpu, d, m) \<Rightarrow>
          if f64_add (f64_add cpu d) m = 0 then
            (if failed + 1 \<ge> 3 then (s, [], StatsGaveUp)
             else (let (s', acts, e) = GetStats_loop c p inputs st' (failed + 1) s in (s', SSleep Second # acts, e)))
          else
            (let (s', acts, e) = GetStats_loop c p inputs st' 0
                   (if over_limit c m then SetKillState (cName c) True s else s)
             in (s', [SAddCpu d, SSetCpu cpu, SSetMem m] @ (if over_limit c m then [SWrite (OpKill (cName c) True), SKill p, SCountOom] else []) @
                     SSleep (Second * GetStatsPeriodSeconds) # acts, e))))"
proof (cases r)
  case (Inl e)
  then show ?thesis
    by (subst GetStats_loop.simps(2)) (simp add: assms Let_def GetStatsFailureThreshold_def)
next
  case (Inr x)
  then obtain cpu d m where r: "r = Inr (cpu, d, m)" by (cases x) auto
  show ?thesis
    by (subst GetStats_loop.simps(2))
       (simp add: assms r Let_def over_limit_def GetStatsFailureThreshold_def case_prod_beta)
qed

text \<open>A kill or a write to the shared state.\<close>

definition intervenes :: "stats_action \<Rightarrow> bool" where
  "intervenes a = (case a of SKill _ \<Rightarrow> True | SWrite _ \<Rightarrow> True | _ \<Rightarrow> False)"

lemma intervenes_simps [simp]:
  "intervenes (SKill p)" "intervenes (SWrite op)" "\<not> intervenes (SSleep d)" "\<not> intervenes (SAddCpu x)"
  "\<not> intervenes (SSetCpu x)" "\<not> intervenes (SSetMem x)" "\<not> intervenes SCountOom"
  by (simp_all add: intervenes_def)

lemma GetStats_loop_within:
  assumes "list_all (\<lambda>(cancelled, f). case memory_read st f of None \<Rightarrow> True | Some m \<Rightarrow> \<not> over_limit c m) inputs"
  shows "case GetStats_loop c p inputs st failed s of (s', acts, e) \<Rightarrow> s' = s \<and> filter intervenes acts = []"
  using assms
proof (induction inputs arbitrary: st failed)
  case (Cons x inputs)
  obtain cancelled f where x: "x = (cancelled, f)" by (cases x)
  obtain r st' where st: "Stat f st = (r, st')" by (cases "Stat f st")
  have mem: "memory_read st' g = memory_read st g" for g
    using Stat_keeps [OF st] by (intro memory_read_cong) auto
  have IH: "case GetStats_loop c p inputs st' failed' s of (s', acts, e) \<Rightarrow> s' = s \<and> filter intervenes acts = []" for failed'
    using Cons.prems mem by (intro Cons.IH) (simp add: list_all_iff)
  have IH': "fst (GetStats_loop c p inputs st' k s) = s"
      "filter intervenes (fst (snd (GetStats_loop c p inputs st' k s))) = []" for k
    using IH [of k] by (simp_all add: case_prod_beta)
  show ?case
  proof (cases r)
    case (Inl e)
    then show ?thesis
      unfolding x GetStats_loop_Cons [OF st] by (simp add: case_prod_beta Let_def IH')
  next
    case (Inr y)
    then obtain cpu d m where r: "r = Inr (cpu, d, m)" by (cases y) auto
    then have "\<not> over_limit c m" using Cons.prems x st by (simp add: memory_read_def)
    then show ?thesis
      unfolding x GetStats_loop_Cons [OF st] r by (simp add: case_prod_beta Let_def IH')
  qed
qed simp

text \<open>C27: the memory limit spares the obedient. As long as every reading is within the limit, or no limit
  is set, the collector neither kills the process nor touches the shared state.\<close>

theorem GetStats_within_limit:
  assumes "list_all (\<lambda>(cancelled, f). case memory_read (NewProcStats p 0 0) f of
             None \<Rightarrow> True | Some m \<Rightarrow> cMemoryLimitMB c \<le> 0 \<or> f64_div m 1000000 \<le> cMemoryLimitMB c) inputs"
  shows "case GetStats goos c p inputs s of (s', acts, e) \<Rightarrow> s' = s \<and> filter intervenes acts = []"
proof -
  have "list_all (\<lambda>(cancelled, f). case memory_read (NewProcStats p 0 0) f of
      None \<Rightarrow> True | Some m \<Rightarrow> \<not> over_limit c m) inputs"
    using assms by (auto simp: list_all_iff over_limit_def split: option.splits)
  then show ?thesis using GetStats_loop_within [where st = "NewProcStats p 0 0" and c = c and inputs = inputs] by (simp add: GetStats_def)
qed

definition limited :: "rat \<Rightarrow> command_base" where
  "limited l = zero_command\<lparr>cName := ''app'', cMemoryLimitMB := l\<rparr>"

theorem GetStats_within_limit_witness:
  "memory_read (NewProcStats 1 0 0) demo_file = Some 1024000000 \<and>
   (case GetStats ''linux'' (limited 2000) 1 [(False, demo_file), (False, \<lambda>_. None), (False, demo_file)] (NewState [] False) of
      (s', acts, e) \<Rightarrow> s' = NewState [] False \<and> filter intervenes acts = [])"
proof -
  have m: "memory_read (NewProcStats 1 0 0) demo_file = Some 1024000000"
    by (simp add: memory_read_def demo_Stat)
  have n: "memory_read (NewProcStats 1 0 0) (\<lambda>_. None) = None" by (simp add: memory_read_def Stat_def)
  have l: "f64_div 1024000000 1000000 \<le> cMemoryLimitMB (limited 2000)"
    by (simp add: f64_div_def limited_def)
  have "case GetStats ''linux'' (limited 2000) 1 [(False, demo_file), (False, \<lambda>_. None), (False, demo_file)] (NewState [] False) of
      (s', acts, e) \<Rightarrow> s' = NewState [] False \<and> filter intervenes acts = []"
    by (rule GetStats_within_limit) (simp add: m n l)
  with m show ?thesis by blast
qed

text \<open>What the collector remembers after some iterations, and a run continued after them.\<close>

definition stat_after :: "proc_stat \<Rightarrow> (bool \<times> (string \<Rightarrow> string option)) list \<Rightarrow> proc_stat" where
  "stat_after st inputs = fold (\<lambda>(cancelled, f) st. snd (Stat f st)) inputs st"

lemma GetStats_loop_append:
  "GetStats_loop c p pre st failed s = (s1, acts1, StatsRunning) \<Longrightarrow>
   \<exists>failed'. GetStats_loop c p (pre @ inputs) st failed s =
     (case GetStats_loop c p inputs (stat_after st pre) failed' s1 of (s2, acts2, e) \<Rightarrow> (s2, acts1 @ acts2, e))"
proof (induction pre arbitrary: st failed s acts1)
  case (Cons x pre)
  obtain cancelled f where x: "x = (cancelled, f)" by (cases x)
  obtain r st' where st: "Stat f st = (r, st')" by (cases "Stat f st")
  note loop = GetStats_loop_Cons [OF st]
  have after: "stat_after st (x # pre) = stat_after st' pre" by (simp add: stat_after_def x st)
  have go: "\<exists>front failed' s'. (\<forall>ins. GetStats_loop c p (x # ins) st failed s =
        (case GetStats_loop c p ins st' failed' s' of (s2, acts, e) \<Rightarrow> (s2, front @ acts, e)))"
  proof (cases r)
    case (Inl err)
    then show ?thesis
      using Cons.prems unfolding x loop
      by (intro exI [of _ "[SSleep Second]"] exI [of _ "failed + 1"] exI [of _ s])
        (auto simp: case_prod_beta Let_def simp del: GetStats_loop.simps split: if_splits)
  next
    case (Inr y)
    then obtain cpu d m where r: "r = Inr (cpu, d, m)" by (cases y) auto
    show ?thesis
    proof (cases "f64_add (f64_add cpu d) m = 0")
      case True
      then show ?thesis
        using Cons.prems unfolding x loop r
        by (intro exI [of _ "[SSleep Second]"] exI [of _ "failed + 1"] exI [of _ s])
          (auto simp: case_prod_beta Let_def simp del: GetStats_loop.simps split: if_splits)
    next
      case False
      then show ?thesis
        using Cons.prems unfolding x loop r
        by (intro exI [of _ "[SAddCpu d, SSetCpu cpu, SSetMem m] @
              (if over_limit c m then [SWrite (OpKill (cName c) True), SKill p, SCountOom] else []) @
              [SSleep (Second * GetStatsPeriodSeconds)]"] exI [of _ 0]
            exI [of _ "if over_limit c m then SetKillState (cName c) True s else s"])
          (simp add: case_prod_beta Let_def del: GetStats_loop.simps split: if_split_asm)
    qed
  qed
  then obtain front failed' s' where front: "GetStats_loop c p (x # ins) st failed s =
      (case GetStats_loop c p ins st' failed' s' of (s2, acts, e) \<Rightarrow> (s2, front @ acts, e))" for ins
    by blast
  obtain s2 acts2 e where rec: "GetStats_loop c p pre st' failed' s' = (s2, acts2, e)" by (metis prod_cases3)
  then have "s2 = s1" "acts1 = front @ acts2" "e = StatsRunning" using Cons.prems front [of pre] by auto
  moreover from this Cons.IH rec obtain k where "GetStats_loop c p (pre @ inputs) st' failed' s' =
      (case GetStats_loop c p inputs (stat_after st' pre) k s1 of (s2, acts', e) \<Rightarrow> (s2, acts2 @ acts', e))"
    by blast
  ultimately show ?case
    using front [of "pre @ inputs"] after by (intro exI [of _ k]) (simp add: case_prod_beta)
qed (auto simp: stat_after_def)

text \<open>The only write of the collector raises the kill flag, so raising it again changes nothing.\<close>

lemma SetKillState_idem [simp]: "SetKillState n b (SetKillState n b s) = SetKillState n b s"
  by (simp add: SetKillState_def gput_def)

lemma GetStats_loop_killed:
  "fst (GetStats_loop c p inputs st failed (SetKillState (cName c) True s)) = SetKillState (cName c) True s"
proof (induction inputs arbitrary: st failed)
  case (Cons x inputs)
  obtain cancelled f where x: "x = (cancelled, f)" by (cases x)
  obtain r st' where st: "Stat f st = (r, st')" by (cases "Stat f st")
  show ?case
  proof (cases r)
    case (Inl e)
    then show ?thesis
      unfolding x GetStats_loop_Cons [OF st] by (simp add: case_prod_beta Let_def Cons.IH)
  next
    case (Inr y)
    then obtain cpu d m where r: "r = Inr (cpu, d, m)" by (cases y) auto
    show ?thesis
      unfolding x GetStats_loop_Cons [OF st] r by (simp add: case_prod_beta Let_def Cons.IH)
  qed
qed simp

text \<open>C26: the memory limit is enforced. Whatever the collector has met before, if it is still running and then
  takes a reading above the limit, with some usage to report, in an iteration that is not cancelled, it
  raises the kill flag of the process and then kills exactly its pid, before it sleeps and before
  anything else is read; and the flag stays raised by it.\<close>

theorem GetStats_kills_above_limit:
  assumes "GetStats ''linux'' c p pre s = (s1, acts1, StatsRunning)"
    and "Stat f (stat_after (NewProcStats p 0 0) pre) = (Inr (cpu, d, m), st)" and "f64_add (f64_add cpu d) m \<noteq> 0"
    and "cMemoryLimitMB c > 0" and "f64_div m 1000000 > cMemoryLimitMB c"
  shows "\<exists>acts e. GetStats ''linux'' c p (pre @ (False, f) # inputs) s =
    (SetKillState (cName c) True s1,
     acts1 @ [SAddCpu d, SSetCpu cpu, SSetMem m, SWrite (OpKill (cName c) True), SKill p, SCountOom,
              SSleep (Second * GetStatsPeriodSeconds)] @ acts, e)"
proof -
  have "GetStats_loop c p pre (NewProcStats p 0 0) 0 s = (s1, acts1, StatsRunning)"
    using assms(1) by (simp add: GetStats_def)
  from GetStats_loop_append [OF this, of "(False, f) # inputs"] obtain k where
    k: "GetStats ''linux'' c p (pre @ (False, f) # inputs) s =
      (case GetStats_loop c p ((False, f) # inputs) (stat_after (NewProcStats p 0 0) pre) k s1 of
         (s2, acts2, e) \<Rightarrow> (s2, acts1 @ acts2, e))"
    by (auto simp: GetStats_def)
  show ?thesis
    unfolding k GetStats_loop_Cons [OF assms(2)]
    using assms(3-5) GetStats_loop_killed [of c p inputs st 0 s1]
    by (simp add: over_limit_def case_prod_beta Let_def del: GetStats_loop.simps)
qed

theorem GetStats_kills_above_limit_witness:
  "\<exists>acts e. GetStats ''linux'' (limited 1000) 1 [(False, \<lambda>_. None), (False, demo_file)] (NewState [] False) =
     (SetKillState ''app'' True (NewState [] False),
      [SSleep Second] @ [SAddCpu 2, SSetCpu 2, SSetMem 1024000000, SWrite (OpKill ''app'' True), SKill 1, SCountOom,
       SSleep (Second * GetStatsPeriodSeconds)] @ acts, e)"
proof -
  have none: "Stat (\<lambda>_. None) (NewProcStats 1 0 0) = (Inl CannotRead, NewProcStats 1 0 0)" by (simp add: Stat_def)
  have pre: "GetStats ''linux'' (limited 1000) 1 [(False, \<lambda>_. None)] (NewState [] False) =
      (NewState [] False, [SSleep Second], StatsRunning)"
    by (simp add: GetStats_def GetStats_loop_Cons [OF none] del: GetStats_loop.simps(2))
  have st: "Stat demo_file (stat_after (NewProcStats 1 0 0) [(False, \<lambda>_. None)]) =
      (Inr (2, 2, 1024000000), (NewProcStats 1 0 0)\<lparr>cpuSeconds := 2\<rparr>)"
    by (simp add: stat_after_def none demo_Stat)
  have "f64_add (f64_add 2 2) 1024000000 \<noteq> 0" "f64_div 1024000000 1000000 > cMemoryLimitMB (limited 1000)"
    "cMemoryLimitMB (limited 1000) > 0" "cName (limited 1000) = ''app''"
    by (simp_all add: f64_add_def f64_div_def limited_def)
  with GetStats_kills_above_limit [OF pre st, of "[]"] show ?thesis by simp
qed

text \<open>The collector gives up. Three iterations in a row that cannot read the statistics, or read no
  usage at all, end the collector after two sleeps of one second.\<close>

theorem GetStats_gives_up:
  assumes "list_all (\<lambda>f. case fst (Stat f (NewProcStats p 0 0)) of Inl _ \<Rightarrow> True | Inr _ \<Rightarrow> False) [f1, f2, f3]"
  shows "GetStats ''linux'' c p ((False, f1) # (False, f2) # (False, f3) # inputs) s =
           (s, [SSleep Second, SSleep Second], StatsGaveUp)"
proof -
  have fail: "\<exists>e. Stat f (NewProcStats p 0 0) = (Inl e, NewProcStats p 0 0)" if "f \<in> {f1, f2, f3}" for f
    using assms that by (auto simp: Stat_def Let_def split: option.splits if_splits sum.splits)
  obtain e1 e2 e3 where "Stat f1 (NewProcStats p 0 0) = (Inl e1, NewProcStats p 0 0)"
    "Stat f2 (NewProcStats p 0 0) = (Inl e2, NewProcStats p 0 0)"
    "Stat f3 (NewProcStats p 0 0) = (Inl e3, NewProcStats p 0 0)"
    using fail by (metis insertI1 insertI2)
  then show ?thesis
    by (simp add: GetStats_def GetStats_loop_Cons del: GetStats_loop.simps)
qed

theorem GetStats_gives_up_witness:
  "GetStats ''linux'' (limited 0) 1 [(False, \<lambda>_. None), (False, \<lambda>_. Some ''1''), (False, \<lambda>_. None)] (NewState [] False) =
     (NewState [] False, [SSleep Second, SSleep Second], StatsGaveUp)"
proof -
  have "list_all (\<lambda>f. case fst (Stat f (NewProcStats 1 0 0)) of Inl _ \<Rightarrow> True | Inr _ \<Rightarrow> False)
      [\<lambda>_. None, \<lambda>_. Some ''1'', \<lambda>_. None]"
    by (simp add: Stat_def)
  from GetStats_gives_up [OF this, of "limited 0" "[]" "NewState [] False"] show ?thesis .
qed

end
