(* ===== verification/Output.thy ===== *)
theory Output
  imports Command
begin

text \<open>
  The output of the children: \<^verbatim>\<open>ProcessOutput\<close> of pkg/process/process.go. The logfmt decoder is a
  library: \<open>decode\<close> gives the records (lists of key and value) it yields for a text before it stops.
\<close>

section \<open>One line\<close>

datatype severity = SevInfo | SevWarn | SevError

text \<open>What is written for a line: the line itself, or a log entry with its fields.\<close>

datatype log_output =
    Printed string
  | Logged severity "(string \<times> string) list" string

type_synonym logfmt = "string \<Rightarrow> (string \<times> string) list list"

text \<open>The two nested scans keep the last level and the last message.\<close>

fun scan_keyvals :: "(string \<times> string) list \<Rightarrow> string \<times> string \<Rightarrow> string \<times> string" where
  "scan_keyvals [] (l, m) = (l, m)"
| "scan_keyvals ((k, v) # kvs) (l, m) =
     scan_keyvals kvs
       (if k = ''level'' then v else l, if k = ''msg'' then v else m)"

fun scan_records :: "(string \<times> string) list list \<Rightarrow> string \<times> string \<Rightarrow> string \<times> string" where
  "scan_records [] lm = lm"
| "scan_records (r # rs) lm = scan_records rs (scan_keyvals r lm)"

definition getMessage :: "logfmt \<Rightarrow> string \<Rightarrow> string \<times> string" where
  "getMessage decode out =
     (case scan_records (decode out) ([], []) of
        (l, m) \<Rightarrow> if l = [] then (''unknown'', out) else (l, m))"

definition std_fields :: "proc_name \<Rightarrow> pid \<Rightarrow> (string \<times> string) list" where
  "std_fields n p = [(''name'', n), (''pid'', show_int p), (''out'', ''stdout'')]"

definition level_fields :: "proc_name \<Rightarrow> pid \<Rightarrow> string \<Rightarrow> (string \<times> string) list" where
  "level_fields n p level = [(''name'', n), (''pid'', show_int p), (''severity'', level)]"

definition output_line :: "logfmt \<Rightarrow> string \<Rightarrow> proc_name \<Rightarrow> pid \<Rightarrow> string \<Rightarrow> log_output" where
  "output_line decode logFormat n p out =
     (case getMessage decode out of
        (level, message) \<Rightarrow>
          if level = ''unknown'' then
            (if logFormat = ''free'' \<or> logFormat = ''plain'' then Printed out
             else if logFormat = ''auto'' then
               (if Contains out ''CRITICAL'' \<or> Contains out ''ERROR'' then Logged SevError (std_fields n p) out
                else if Contains out ''WARNING'' then Logged SevWarn (std_fields n p) out
                else Logged SevInfo (std_fields n p) out)
             else Logged SevInfo (std_fields n p) out)
          else if level = ''warning'' then Logged SevWarn (level_fields n p level) message
          else if level = ''error'' then Logged SevError (level_fields n p level) message
          else Logged SevInfo (level_fields n p level) message)"

section \<open>The loop\<close>

text \<open>The format of the command, or else of the wrapper.\<close>

definition log_format :: "environ \<Rightarrow> 'a command_base_scheme \<Rightarrow> string" where
  "log_format e c = (if cLogFormat c \<noteq> [] then cLogFormat c else Getenv e ''LOG_FORMAT'')"

lemma ReadString_ok: "\<not> snd (snd (ReadString s)) \<Longrightarrow> length (fst (snd (ReadString s))) < length s"
  by (auto simp: ReadString_def Index_Some_iff split: option.splits)

text \<open>The loop over everything the pipe delivers until it is closed.\<close>

function output_loop :: "(string \<Rightarrow> log_output) \<Rightarrow> string \<Rightarrow> log_output list" where
  "output_loop line s =
     (let (out, rest, err) = ReadString s
      in if err then [] else line out # output_loop line rest)"
  by pat_completeness auto
termination
proof (relation "measure (\<lambda>(line, s). length s)")
  fix line :: "string \<Rightarrow> log_output" and s x out y rest err
  assume "x = ReadString s" "(out, y) = x" "(rest, err) = y" "\<not> err"
  then show "((line, rest), line, s) \<in> measure (\<lambda>(line, s). length s)"
    using ReadString_ok [of s] by (metis fst_conv in_measure case_prod_conv snd_conv)
qed simp

declare output_loop.simps [simp del]

definition ProcessOutput ::
  "logfmt \<Rightarrow> environ \<Rightarrow> 'a command_base_scheme \<Rightarrow> pid \<Rightarrow> string \<Rightarrow> log_output list" where
  "ProcessOutput decode e c p s =
     output_loop (output_line decode (log_format e c) (cName c) p) s"

section \<open>Complete lines\<close>

text \<open>The lines of a text that end in a newline, with it, and what follows the last newline.\<close>

definition full_lines :: "string \<Rightarrow> string list" where
  "full_lines s = map (\<lambda>l. l @ [CHR 0x0A]) (butlast (Split s (CHR 0x0A)))"

definition open_line :: "string \<Rightarrow> string" where
  "open_line s = last (Split s (CHR 0x0A))"

lemma ReadString_line: "CHR 0x0A \<notin> set l \<Longrightarrow> ReadString (l @ CHR 0x0A # t) = (l @ [CHR 0x0A], t, False)"
  by (simp add: ReadString_def Index_append)

lemma ReadString_open: "CHR 0x0A \<notin> set s \<Longrightarrow> ReadString s = (s, [], True)"
  by (simp add: ReadString_def Index_None_iff [THEN iffD2])

lemma full_lines_line: "CHR 0x0A \<notin> set l \<Longrightarrow> full_lines (l @ CHR 0x0A # t) = (l @ [CHR 0x0A]) # full_lines t"
  by (simp add: full_lines_def Split_append)

lemma output_loop_lines: "output_loop line s = map line (full_lines s)"
proof (induction "length s" arbitrary: s rule: less_induct)
  case less
  show ?case
  proof (cases "CHR 0x0A \<in> set s")
    case False
    then show ?thesis
      by (subst output_loop.simps) (simp add: ReadString_open full_lines_def Split_id)
  next
    case True
    then obtain l t where s: "s = l @ CHR 0x0A # t" "CHR 0x0A \<notin> set l" by (metis split_list_first)
    have "output_loop line s = line (l @ [CHR 0x0A]) # output_loop line t"
      by (subst output_loop.simps) (simp add: s ReadString_line)
    then show ?thesis using less [of t] s by (simp add: full_lines_line)
  qed
qed

lemma Join_butlast:
  "ws \<noteq> [] \<Longrightarrow> concat (map (\<lambda>l. l @ sep) (butlast ws)) @ last ws = Join ws sep"
  by (induction ws) (auto simp: Join_Cons)

lemma full_lines_open: "concat (full_lines s) @ open_line s = s"
  using Join_butlast [OF Split_nonempty, of "[CHR 0x0A]" s "CHR 0x0A"]
  by (simp add: full_lines_def open_line_def Join_Split)

text \<open>C29: output by lines. The loop returns when the pipe is closed, having written exactly one output
  for each newline the child wrote, in order; what the child wrote after its last newline is not
  written at all.\<close>

theorem ProcessOutput_lines:
  "ProcessOutput decode e c p s =
     map (output_line decode (log_format e c) (cName c) p)
       (map (\<lambda>l. l @ [CHR 0x0A]) (butlast (Split s (CHR 0x0A)))) \<and>
   length (ProcessOutput decode e c p s) = count_list s (CHR 0x0A)"
  by (simp add: ProcessOutput_def output_loop_lines full_lines_def length_Split)

section \<open>What becomes of a line\<close>

fun printed :: "log_output list \<Rightarrow> string" where
  "printed [] = []"
| "printed (Printed t # os) = t @ printed os"
| "printed (Logged v fs t # os) = printed os"

lemma printed_all: "list_all (\<lambda>l. line l = Printed l) ls \<Longrightarrow> printed (map line ls) = concat ls"
  by (induction ls) auto

text \<open>C30: plain output. With the format \<^verbatim>\<open>free\<close> or \<^verbatim>\<open>plain\<close>, and lines in which the decoder finds
  no level, the wrapper's standard output is exactly the child's output up to its last newline.\<close>

theorem plain_output_unchanged:
  assumes "log_format e c \<in> {''free'', ''plain''}"
    and "list_all (\<lambda>l. fst (getMessage decode l) = ''unknown'') (full_lines s)"
  shows "printed (ProcessOutput decode e c p s) @ open_line s = s"
proof -
  have "list_all (\<lambda>l. output_line decode (log_format e c) (cName c) p l = Printed l) (full_lines s)"
    using assms by (auto simp: list_all_iff output_line_def case_prod_beta)
  then show ?thesis
    by (simp add: ProcessOutput_def output_loop_lines printed_all full_lines_open)
qed

definition plain_process :: command_base where
  "plain_process = zero_command\<lparr>cName := ''app'', cLogFormat := ''plain''\<rparr>"

theorem plain_output_unchanged_witness:
  "printed (ProcessOutput (\<lambda>_. []) (\<lambda>_. Some ''auto'') plain_process 7
              (''ERROR: disk'' @ [CHR 0x0A] @ ''more'')) @ ''more'' =
     ''ERROR: disk'' @ [CHR 0x0A] @ ''more''"
proof -
  have "log_format (\<lambda>_. Some ''auto'') plain_process \<in> {''free'', ''plain''}"
    by (simp add: log_format_def plain_process_def)
  moreover have "list_all (\<lambda>l. fst (getMessage (\<lambda>_. []) l) = ''unknown'')
      (full_lines (''ERROR: disk'' @ [CHR 0x0A] @ ''more''))"
    by (simp add: getMessage_def list_all_iff)
  ultimately have "printed (ProcessOutput (\<lambda>_. []) (\<lambda>_. Some ''auto'') plain_process 7
      (''ERROR: disk'' @ [CHR 0x0A] @ ''more'')) @ open_line (''ERROR: disk'' @ [CHR 0x0A] @ ''more'') =
      ''ERROR: disk'' @ [CHR 0x0A] @ ''more''"
    by (rule plain_output_unchanged)
  moreover have "open_line (''ERROR: disk'' @ [CHR 0x0A] @ ''more'') = ''more''"
    by (simp add: open_line_def)
  ultimately show ?thesis by simp
qed

text \<open>The values of a key in the order of the decoder.\<close>

definition values_of :: "string \<Rightarrow> (string \<times> string) list list \<Rightarrow> string list" where
  "values_of k rs = map snd (filter (\<lambda>(k', v). k' = k) (concat rs))"

definition last_or :: "'a \<Rightarrow> 'a list \<Rightarrow> 'a" where
  "last_or d xs = (if xs = [] then d else last xs)"

lemma last_or_simps [simp]: "last_or d [] = d" "last_or d (x # xs) = last_or x xs"
  by (simp_all add: last_or_def)

lemma last_or_append: "last_or d (xs @ ys) = last_or (last_or d xs) ys"
  by (simp add: last_or_def)

lemma scan_keyvals_last:
  "scan_keyvals kvs (l, m) = (last_or l (values_of ''level'' [kvs]), last_or m (values_of ''msg'' [kvs]))"
  by (induction kvs arbitrary: l m) (auto simp: values_of_def)

lemma scan_records_last:
  "scan_records rs (l, m) = (last_or l (values_of ''level'' rs), last_or m (values_of ''msg'' rs))"
proof (induction rs arbitrary: l m)
  case (Cons r rs)
  have "values_of k (r # rs) = values_of k [r] @ values_of k rs" for k by (simp add: values_of_def)
  then show ?case by (simp add: scan_keyvals_last Cons.IH last_or_append)
qed (simp add: values_of_def)

text \<open>Severities. A line in which the decoder finds a level other than \<^verbatim>\<open>unknown\<close> is logged as a
  warning for \<^verbatim>\<open>warning\<close>, as an error for \<^verbatim>\<open>error\<close> and as information for every other level
  (\<^verbatim>\<open>warn\<close>, \<^verbatim>\<open>fatal\<close> and \<^verbatim>\<open>ERROR\<close> included), whatever the log format; of the line only the last
  message survives, and a line that has none is logged as an empty message.\<close>

theorem severity_of_level:
  assumes "values_of ''level'' (decode out) \<noteq> []"
    and "last (values_of ''level'' (decode out)) = level" and "level \<notin> {[], ''unknown''}"
  shows "output_line decode logFormat n p out =
    Logged (if level = ''warning'' then SevWarn else if level = ''error'' then SevError else SevInfo)
      [(''name'', n), (''pid'', show_int p), (''severity'', level)]
      (if values_of ''msg'' (decode out) = [] then [] else last (values_of ''msg'' (decode out)))"
  using assms
  by (simp add: output_line_def getMessage_def scan_records_last last_or_def level_fields_def)

theorem severity_of_level_witness:
  "output_line (\<lambda>_. [[(''level'', ''warn''), (''user'', ''7'')]]) ''free'' ''app'' 7 ''level=warn user=7'' =
     Logged SevInfo [(''name'', ''app''), (''pid'', show_int 7), (''severity'', ''warn'')] []"
  using severity_of_level [of "\<lambda>_. [[(''level'', ''warn''), (''user'', ''7'')]]" "''level=warn user=7''" "''warn''"
      "''free''" "''app''" 7]
  by (simp add: values_of_def)

section \<open>Severities are ordered\<close>

fun severity_rank :: "severity \<Rightarrow> nat" where
  "severity_rank SevInfo = 0" | "severity_rank SevWarn = 1" | "severity_rank SevError = 2"

lemma severity_rank_inject: "severity_rank a = severity_rank b \<Longrightarrow> a = b"
  by (cases a; cases b) auto

instantiation severity :: linorder
begin

definition less_eq_severity :: "severity \<Rightarrow> severity \<Rightarrow> bool" where
  "less_eq_severity a b \<longleftrightarrow> severity_rank a \<le> severity_rank b"

definition less_severity :: "severity \<Rightarrow> severity \<Rightarrow> bool" where
  "less_severity a b \<longleftrightarrow> severity_rank a < severity_rank b"

instance
  by standard (auto simp: less_eq_severity_def less_severity_def intro: severity_rank_inject)

end

definition severity_of :: "log_output \<Rightarrow> severity" where
  "severity_of l = (case l of Printed t \<Rightarrow> SevInfo | Logged v fs t \<Rightarrow> v)"

lemma Contains_extend: "Contains s p \<Longrightarrow> Contains (u @ s @ v) p"
  unfolding Contains_iff by (metis append_assoc)

text \<open>In the format \<^verbatim>\<open>auto\<close>, text around a line never lowers its severity.\<close>

lemma auto_severity_mono:
  assumes "fst (getMessage decode s) = ''unknown''" and "fst (getMessage decode (u @ s @ v)) = ''unknown''"
  shows "severity_of (output_line decode ''auto'' n p s) \<le> severity_of (output_line decode ''auto'' n p (u @ s @ v))"
proof -
  have sev: "severity_of (output_line decode ''auto'' n p t) =
      (if Contains t ''CRITICAL'' \<or> Contains t ''ERROR'' then SevError
       else if Contains t ''WARNING'' then SevWarn else SevInfo)" if "fst (getMessage decode t) = ''unknown''" for t
    using that by (simp add: output_line_def case_prod_beta severity_of_def)
  show ?thesis
    unfolding sev [OF assms(1)] sev [OF assms(2)]
    by (auto simp: less_eq_severity_def dest: Contains_extend)
qed

end
