(* ===== verification/EnvMerge.thy ===== *)
theory EnvMerge
  imports GoText
begin

text \<open>
  Building a process environment (\<^verbatim>\<open>MergeEnvs\<close>, \<^verbatim>\<open>ConvertEnvs\<close>, \<^verbatim>\<open>parseEnv\<close>,
  \<^verbatim>\<open>removeQuotes\<close> of pkg/process/process.go).
\<close>

section \<open>One entry\<close>

text \<open>The loop of \<^verbatim>\<open>parseEnv\<close>: \<open>i\<close> is the loop variable.\<close>

function parseEnv_from :: "string \<Rightarrow> nat \<Rightarrow> string list" where
  "parseEnv_from e i =
     (if i < length e then
        (if e ! i = CHR ''='' then [take i e, drop (i + 1) e] else parseEnv_from e (i + 1))
      else [])"
  by pat_completeness auto
termination by (relation "measure (\<lambda>(e, i). length e - i)") auto

declare parseEnv_from.simps [simp del]

definition parseEnv :: "string \<Rightarrow> string list" where
  "parseEnv e = parseEnv_from e 0"

definition removeQuotes :: "string \<Rightarrow> string" where
  "removeQuotes s =
     (if length s > 1 \<and> s ! 0 = CHR 0x22 \<and> s ! (length s - 1) = CHR 0x22
      then take (length s - 2) (drop 1 s) else s)"

lemma parseEnv_from_Index:
  "parseEnv_from e i =
     (case Index (drop i e) (CHR ''='') of
        None \<Rightarrow> [] | Some j \<Rightarrow> [take (i + j) e, drop (i + j + 1) e])"
proof (induction e i rule: parseEnv_from.induct)
  case (1 e i)
  show ?case
  proof (cases "i < length e")
    case True
    then have d: "drop i e = e ! i # drop (Suc i) e" by (simp add: Cons_nth_drop_Suc)
    show ?thesis
      using 1 True by (subst parseEnv_from.simps) (auto simp: d split: option.splits)
  next
    case False
    then show ?thesis by (subst parseEnv_from.simps) simp
  qed
qed

lemma parseEnv_Index:
  "parseEnv e =
     (case Index e (CHR ''='') of None \<Rightarrow> [] | Some j \<Rightarrow> [take j e, drop (j + 1) e])"
  by (simp add: parseEnv_def parseEnv_from_Index split: option.split)

lemma parseEnv_split:
  "CHR ''='' \<notin> set k \<Longrightarrow> parseEnv (k @ CHR ''='' # v) = [k, v]"
  by (simp add: parseEnv_Index Index_append)

lemma parseEnv_none: "CHR ''='' \<notin> set e \<Longrightarrow> parseEnv e = []"
  using Index_None_iff [of e "CHR ''=''"] by (simp add: parseEnv_Index)

lemma parseEnv_cases:
  obtains "CHR ''='' \<notin> set e" "parseEnv e = []"
  | k v where "e = k @ CHR ''='' # v" "CHR ''='' \<notin> set k" "parseEnv e = [k, v]"
proof (cases "CHR ''='' \<in> set e")
  case True
  then obtain k v where "e = k @ CHR ''='' # v" "CHR ''='' \<notin> set k"
    by (metis split_list_first)
  then show thesis using that(2) parseEnv_split by blast
next
  case False
  then show thesis using that(1) parseEnv_none by blast
qed

lemma removeQuotes_quoted: "removeQuotes (CHR 0x22 # s @ [CHR 0x22]) = s"
  by (simp add: removeQuotes_def nth_append)

section \<open>The environment file\<close>

text \<open>
  \<^verbatim>\<open>bufio.Scanner\<close> with \<^verbatim>\<open>ScanLines\<close>: lines without their newline and without one final
  carriage return. A line of 64 KiB or more ends the scan (its error is not looked at).
\<close>

definition max_line :: nat where "max_line = 65536"

definition dropCR :: "string \<Rightarrow> string" where
  "dropCR l = (if l \<noteq> [] \<and> last l = CHR 0x0D then butlast l else l)"

function scan_lines :: "string \<Rightarrow> string list" where
  "scan_lines s =
     (if s = [] then []
      else (let l = takeWhile (\<lambda>c. c \<noteq> CHR 0x0A) s
            in if length l \<ge> max_line then []
               else dropCR l # scan_lines (drop (Suc (length l)) s)))"
  by pat_completeness auto
termination by (relation "measure length") auto

declare scan_lines.simps [simp del]

section \<open>Merging\<close>

fun load_os_envs :: "string list \<Rightarrow> (string, string) gmap \<Rightarrow> (string, string) gmap" where
  "load_os_envs [] envs = envs"
| "load_os_envs (e # es) envs =
     (case parseEnv e of
        [k, v] \<Rightarrow> load_os_envs es (gput k v envs)
      | _ \<Rightarrow> load_os_envs es envs)"

fun load_file_envs :: "string list \<Rightarrow> (string, string) gmap \<Rightarrow> (string, string) gmap" where
  "load_file_envs [] envs = envs"
| "load_file_envs (txt # ls) envs =
     (if length txt = 0 then load_file_envs ls envs
      else (case parseEnv (TrimSpace txt) of
              [k, v] \<Rightarrow> load_file_envs ls (gput k (removeQuotes v) envs)
            | _ \<Rightarrow> load_file_envs ls envs))"

text \<open>
  \<^verbatim>\<open>MergeEnvs\<close>: the environment of the wrapper, then the envs of the command, then the file.
  A file that cannot be opened ends the wrapper with exit code 1 (\<open>Inl\<close>).
\<close>

definition MergeEnvs ::
  "string list \<Rightarrow> (string \<Rightarrow> string option) \<Rightarrow> (string, string) gmap \<Rightarrow> string \<Rightarrow>
   int + (string, string) gmap" where
  "MergeEnvs os_envs open_file cEnvs cEnvsFile =
     (let envs = load_os_envs os_envs gempty;
          envs = fold (\<lambda>(k, v). gput k v) cEnvs envs
      in if cEnvsFile \<noteq> [] then
           (case open_file cEnvsFile of
              None \<Rightarrow> Inl 1
            | Some content \<Rightarrow> Inr (load_file_envs (scan_lines content) envs))
         else Inr envs)"

definition ConvertEnvs :: "(string, string) gmap \<Rightarrow> string list" where
  "ConvertEnvs envsMap = map (\<lambda>(k, v). k @ ''='' @ v) envsMap"

subsection \<open>The pairs a source of entries contributes, in order\<close>

definition env_pair :: "string \<Rightarrow> (string \<times> string) list" where
  "env_pair e = (case parseEnv e of [k, v] \<Rightarrow> [(k, v)] | _ \<Rightarrow> [])"

definition file_pair :: "string \<Rightarrow> (string \<times> string) list" where
  "file_pair t =
     (if t = [] then []
      else (case parseEnv (TrimSpace t) of [k, v] \<Rightarrow> [(k, removeQuotes v)] | _ \<Rightarrow> []))"

lemma load_os_envs_fold:
  "load_os_envs es m = fold (\<lambda>(k, v). gput k v) (concat (map env_pair es)) m"
proof (induction es arbitrary: m)
  case (Cons e es)
  then show ?case by (cases rule: parseEnv_cases [of e]) (simp_all add: env_pair_def)
qed simp

lemma load_file_envs_fold:
  "load_file_envs ls m = fold (\<lambda>(k, v). gput k v) (concat (map file_pair ls)) m"
proof (induction ls arbitrary: m)
  case (Cons t ls)
  then show ?case
    by (cases rule: parseEnv_cases [of "TrimSpace t"]) (simp_all add: file_pair_def)
qed simp

text \<open>Every entry of the wrapper, then of the command, then of the file.\<close>

definition env_sources ::
  "string list \<Rightarrow> (string, string) gmap \<Rightarrow> string list \<Rightarrow> (string \<times> string) list" where
  "env_sources os_envs cEnvs ls = concat (map env_pair os_envs) @ cEnvs @ concat (map file_pair ls)"

lemma MergeEnvs_sources:
  "MergeEnvs os_envs open_file cEnvs cEnvsFile = Inr m \<Longrightarrow>
   \<exists>ls. (cEnvsFile = [] \<longrightarrow> ls = []) \<and>
        (cEnvsFile \<noteq> [] \<longrightarrow> (\<exists>c. open_file cEnvsFile = Some c \<and> ls = scan_lines c)) \<and>
        m = fold (\<lambda>(k, v). gput k v) (env_sources os_envs cEnvs ls) gempty"
  by (auto simp: MergeEnvs_def Let_def load_os_envs_fold load_file_envs_fold env_sources_def
      split: if_splits option.splits)

text \<open>C21: precedence of the environment sources. A merged environment is well formed, and the
  value of a variable is that of its last definition in the order wrapper environment, command
  envs, envs file; only a file that cannot be opened makes the merge fail, with exit code 1.\<close>

theorem MergeEnvs_precedence:
  "case (if cEnvsFile = [] then Some [] else map_option scan_lines (open_file cEnvsFile)) of
     None \<Rightarrow> MergeEnvs os_envs open_file cEnvs cEnvsFile = Inl 1
   | Some ls \<Rightarrow>
       \<exists>m. MergeEnvs os_envs open_file cEnvs cEnvsFile = Inr m \<and> gwf m \<and>
           (\<forall>k. gget m k = map_of (rev (env_sources os_envs cEnvs ls)) k)"
proof -
  have g: "gget (fold (\<lambda>(k, v). gput k v) xs gempty) k = map_of (rev xs) k"
    "gwf (fold (\<lambda>(k, v). gput k v) xs (gempty :: (string, string) gmap))"
    for xs :: "(string \<times> string) list" and k
    by (simp_all add: gm.get_fold_put gm.get_empty gm.wf_fold_put gm.wf_empty split: option.splits)
  consider "cEnvsFile = []" | "cEnvsFile \<noteq> []" "open_file cEnvsFile = None"
    | content where "cEnvsFile \<noteq> []" "open_file cEnvsFile = Some content"
    by blast
  then show ?thesis
  proof cases
    case 1
    then show ?thesis using g [of "env_sources os_envs cEnvs []"]
      by (auto simp: MergeEnvs_def Let_def load_os_envs_fold env_sources_def)
  next
    case 2
    then show ?thesis by (simp add: MergeEnvs_def Let_def)
  next
    case (3 content)
    then show ?thesis using g [of "env_sources os_envs cEnvs (scan_lines content)"]
      by (auto simp: MergeEnvs_def Let_def load_os_envs_fold load_file_envs_fold env_sources_def)
  qed
qed

theorem MergeEnvs_precedence_witness:
  "\<exists>m. MergeEnvs [''A=1'', ''B=2''] (\<lambda>_. Some ''A=3'') [(''B'', ''4'')] ''vault'' = Inr m \<and>
       gget m ''A'' = Some ''3'' \<and> gget m ''B'' = Some ''4''"
proof -
  let ?ls = "scan_lines ''A=3''"
  have ls: "?ls = [''A=3'']"
    by (simp add: scan_lines.simps Let_def max_line_def dropCR_def)
  have p: "parseEnv ''A=1'' = [''A'', ''1'']" "parseEnv ''B=2'' = [''B'', ''2'']" "parseEnv ''A=3'' = [''A'', ''3'']"
    using parseEnv_split [of "''A''"] parseEnv_split [of "''B''"] by simp_all
  have t: "TrimSpace ''A=3'' = ''A=3''"
    by (simp add: TrimSpace_def TrimLeft_def TrimRight_def trim_with.simps space_at_def
        ascii_space_def wide_spaces_def)
  show ?thesis
    using MergeEnvs_precedence [where cEnvsFile = "''vault''" and open_file = "\<lambda>_. Some ''A=3''" and os_envs = "[''A=1'', ''B=2'']" and cEnvs = "[(''B'', ''4'')]"]
    by (auto simp: env_sources_def env_pair_def file_pair_def ls p t removeQuotes_def)
qed

text \<open>C22: environment round trip. When no variable name contains an equals sign, reading the
  converted list entry by entry gives back the map, in whatever order Go ranges over it.\<close>

theorem ConvertEnvs_roundtrip:
  assumes "gwf m" and "\<forall>k \<in> fst ` set m. CHR ''='' \<notin> set k" and "mset xs = mset m"
  shows "gget (load_os_envs (ConvertEnvs xs) gempty) = gget m"
proof -
  have "concat (map env_pair (ConvertEnvs xs)) = xs"
    if "\<forall>k \<in> fst ` set xs. CHR ''='' \<notin> set k" for xs
    using that by (induction xs) (auto simp: ConvertEnvs_def env_pair_def parseEnv_split)
  moreover have "set xs = set m" using assms(3) by (metis set_mset_mset)
  ultimately show ?thesis
    using assms gm.copy_any_order [of m xs] by (simp add: load_os_envs_fold)
qed

theorem ConvertEnvs_roundtrip_witness:
  "gget (load_os_envs (ConvertEnvs [(''B'', ''x=y''), (''A'', ''1'')]) gempty) ''B'' = Some ''x=y''"
proof -
  have "gwf [(''A'', ''1''), (''B'', ''x=y'')]" by (simp add: gwf_def)
  then show ?thesis
    using ConvertEnvs_roundtrip [of "[(''A'', ''1''), (''B'', ''x=y'')]" "[(''B'', ''x=y''), (''A'', ''1'')]"]
    by (simp add: gget_def)
qed

end
