(* ===== verification/Config.thy ===== *)
theory Config
  imports Schedule EnvMerge
begin

text \<open>
  The sources of the configuration (pkg/config: file.go, json_env.go, string.go, config.go). The YAML
  and JSON decoders are parameters: each gives the commands it has filled in and whether it succeeded
  (a decoder that fails may have filled in a part). A fatal log entry is \<open>Inl\<close> of the exit code.
\<close>

type_synonym decoder = "string \<Rightarrow> command list \<times> bool"

section \<open>The sources\<close>

definition EnvPrefix :: string where "EnvPrefix = ''SIDECAR''"

text \<open>The variables \<^verbatim>\<open>File.Load\<close> collects, only to log them.\<close>

fun sidecar_envs :: "string list \<Rightarrow> (string, string) gmap \<Rightarrow> (string, string) gmap" where
  "sidecar_envs [] env = env"
| "sidecar_envs (envs # es) env =
     (let kv = Split envs (CHR ''='') in
      if length kv = 2 \<and> Contains (kv ! 0) EnvPrefix
      then sidecar_envs es (gput (kv ! 0) (kv ! 1) env) else sidecar_envs es env)"

text \<open>A file that cannot be read is logged and decoded as the empty text.\<close>

definition File_Load ::
  "string list \<Rightarrow> (string \<Rightarrow> string option) \<Rightarrow> decoder \<Rightarrow> string \<Rightarrow>
   (string, string) gmap \<times> (int + command list)" where
  "File_Load os_environ read_file yaml path =
     (let env = sidecar_envs os_environ gempty;
          config = (case read_file path of None \<Rightarrow> [] | Some c \<Rightarrow> c)
      in case yaml config of
           (commands, ok) \<Rightarrow> (env, if \<not> ok then Inl 1 else Inr commands))"

definition ConfigEnv :: string where "ConfigEnv = ''CONFIG''"

text \<open>The receiver's field \<^verbatim>\<open>Env\<close> is not read; errors are logged only.\<close>

definition JSONEnv_Load :: "environ \<Rightarrow> decoder \<Rightarrow> command list" where
  "JSONEnv_Load e json = (let configJSONString = Getenv e ConfigEnv in fst (json configJSONString))"

definition String_Load :: "decoder \<Rightarrow> string \<Rightarrow> command list" where
  "String_Load yaml config = fst (yaml config)"

definition ToJSON :: "(command list \<Rightarrow> string option) \<Rightarrow> command list \<Rightarrow> string option" where
  "ToJSON marshal commands = (case marshal commands of None \<Rightarrow> None | Some data \<Rightarrow> Some data)"

section \<open>The collected variables\<close>

lemma Split_two_iff:
  "Split s c = [k, v] \<longleftrightarrow> s = k @ c # v \<and> c \<notin> set k \<and> c \<notin> set v"
proof
  assume e: "Split s c = [k, v]"
  then have "s = k @ c # v" using Join_Split [of s c] by simp
  moreover have "c \<notin> set k" "c \<notin> set v" using Split_no_sep [of s c] e by auto
  ultimately show "s = k @ c # v \<and> c \<notin> set k \<and> c \<notin> set v" by blast
qed (auto simp: Split_append Split_id)

definition sidecar_pair :: "string \<Rightarrow> (string \<times> string) list" where
  "sidecar_pair s =
     (case Split s (CHR ''='') of [k, v] \<Rightarrow> if Contains k EnvPrefix then [(k, v)] else [] | _ \<Rightarrow> [])"

lemma sidecar_envs_fold:
  "sidecar_envs es env = fold (\<lambda>(k, v). gput k v) (concat (map sidecar_pair es)) env"
proof (induction es arbitrary: env)
  case (Cons s es)
  consider "length (Split s (CHR ''='')) \<noteq> 2" | k v where "Split s (CHR ''='') = [k, v]"
    by (auto simp: length_Suc_conv numeral_2_eq_2)
  then show ?case
  proof cases
    case 1
    then have "sidecar_pair s = []" by (auto simp: sidecar_pair_def split: list.split)
    then show ?thesis using 1 by (simp add: Cons.IH Let_def)
  next
    case (2 k v)
    then show ?thesis by (simp add: Cons.IH Let_def sidecar_pair_def)
  qed
qed simp

definition plain_pair :: "string \<Rightarrow> (string \<times> string) list" where
  "plain_pair s =
     (case parseEnv s of [k, v] \<Rightarrow> if CHR ''='' \<in> set v then [] else [(k, v)] | _ \<Rightarrow> [])"

lemma sidecar_pair_plain: "sidecar_pair s = filter (\<lambda>(k, v). Contains k EnvPrefix) (plain_pair s)"
proof (rule parseEnv_cases [of s])
  assume s: "CHR ''='' \<notin> set s" "parseEnv s = []"
  show ?thesis unfolding sidecar_pair_def plain_pair_def s(2) Split_id [OF s(1)] by simp
next
  fix k v assume s: "s = k @ CHR ''='' # v" "CHR ''='' \<notin> set k" "parseEnv s = [k, v]"
  show ?thesis
  proof (cases "CHR ''='' \<in> set v")
    case True
    then have "Split v (CHR ''='') \<noteq> [b]" for b using Split_no_sep [of v "CHR ''=''"] Join_Split [of v "CHR ''=''"] by auto
    moreover have "Split s (CHR ''='') = k # Split v (CHR ''='')" unfolding s(1) Split_append [OF s(2)] by simp
    moreover have "plain_pair s = []" unfolding plain_pair_def s(3) using True by simp
    ultimately show ?thesis unfolding sidecar_pair_def by (simp split: list.split)
  next
    case False
    have e: "Split s (CHR ''='') = [k, v]" unfolding s(1) Split_append [OF s(2)] Split_id [OF False] by simp
    show ?thesis unfolding sidecar_pair_def plain_pair_def s(3) e using False by simp
  qed
qed

lemma map_of_filter_key:
  "map_of (filter (\<lambda>(k, v). P k) xs) k = (if P k then map_of xs k else None)"
  by (induction xs) auto

lemma sidecar_pairs: "concat (map sidecar_pair es) = filter (\<lambda>(k, v). Contains k EnvPrefix) (concat (map plain_pair es))"
  by (induction es) (simp_all add: sidecar_pair_plain)

text \<open>The variables a configuration file sees. Exactly the variables of the wrapper whose name
  contains \<^verbatim>\<open>SIDECAR\<close> and whose value contains no equals sign are collected, the last definition of a
  name winning; unlike the environment of the processes, a variable with an equals sign in its value is
  dropped.\<close>

lemma sidecar_variables:
  "gget (fst (File_Load os_environ read_file yaml path)) k =
     (if Contains k ''SIDECAR''
      then map_of (rev (concat (map
             (\<lambda>s. case parseEnv s of [k, v] \<Rightarrow> if CHR ''='' \<in> set v then [] else [(k, v)] | _ \<Rightarrow> [])
             os_environ))) k
      else None)"
proof -
  have "fst (File_Load os_environ read_file yaml path) = sidecar_envs os_environ gempty"
    by (simp add: File_Load_def Let_def case_prod_beta)
  moreover have "gget (sidecar_envs os_environ gempty) k =
      map_of (filter (\<lambda>(k, v). Contains k EnvPrefix) (rev (concat (map plain_pair os_environ)))) k"
    unfolding sidecar_envs_fold gm.get_fold_put gm.get_empty sidecar_pairs rev_filter
    by (simp split: option.split)
  ultimately show ?thesis
    unfolding map_of_filter_key EnvPrefix_def plain_pair_def by simp
qed

end
