(* ===== verification/PodStatus.thy ===== *)
theory PodStatus
  imports SupervisorProps
begin

text \<open>
  Watching the other containers of the pod (pkg/process/container_state.go). The Kubernetes API, the
  token file and the JSON decoder are parameters. The cancel function is the one of the context of
  \<^verbatim>\<open>StartProcessWrapper\<close>, the label \<open>LPodCompleted\<close> of the supervisor.
\<close>

section \<open>Data\<close>

record container_state =
  csExitCode :: int
  csReason :: string
  csStartedAt :: gotime
  csFinishedAt :: gotime
  csContainerID :: string

record container_statuses =
  ccName :: string
  ccState :: "(string, container_state) gmap"
  ccReady :: bool
  ccRestartCount :: int
  ccImage :: string
  ccImageID :: string
  ccContainerID :: string
  ccStarted :: bool

text \<open>\<^verbatim>\<open>PodStatus\<close> without its cancel function.\<close>

type_synonym pod_status = "container_statuses list"

text \<open>
  What one call of \<^verbatim>\<open>ReadStatus\<close> meets: the token file, whether a request can be built for an
  address, the body that is read of the answer (\<open>None\<close> in \<open>kwGet\<close>: no answer; \<open>Some None\<close>: an answer
  whose body cannot be read), and the decoder, which is given the old value to fill in and returns the
  new one and whether it succeeded.
\<close>

record kube_world =
  kwToken :: "string option"
  kwRequest :: "string \<Rightarrow> bool"
  kwGet :: "string \<Rightarrow> string \<Rightarrow> string option option"
  kwUnmarshal :: "string \<Rightarrow> pod_status \<Rightarrow> pod_status \<times> bool"

datatype status_error = NoNamespace | NoToken | BadRequest | NoAnswer | NoBody | BadBody

definition PodInfoURI :: "string \<Rightarrow> string \<Rightarrow> string" where
  "PodInfoURI ns pod =
     ''https://kubernetes.default.svc.cluster.local/api/v1/namespaces/'' @ ns @ ''/pods/'' @ pod"

definition UpdateStatusPeriod :: int where "UpdateStatusPeriod = 5"

section \<open>ReadStatus\<close>

text \<open>The loop over the containers; the result is the number of calls of \<^verbatim>\<open>cancel\<close>.\<close>

fun status_cancels :: "pod_status \<Rightarrow> nat" where
  "status_cancels [] = 0"
| "status_cancels (s # ss) =
     (case gget (ccState s) ''terminated'' of
        Some state \<Rightarrow>
          if csReason state = ''Completed'' \<and> csExitCode state < 1
          then Suc (status_cancels ss) else status_cancels ss
      | None \<Rightarrow> status_cancels ss)"

definition ReadStatus ::
  "environ \<Rightarrow> kube_world \<Rightarrow> pod_status \<Rightarrow> status_error option \<times> nat \<times> pod_status" where
  "ReadStatus e w p =
     (let podNamespace = Getenv e ''POD_NAMESPACE'' in
      if podNamespace = [] then (Some NoNamespace, 0, p)
      else
        (let uri = PodInfoURI podNamespace (Getenv e ''HOSTNAME'') in
         case kwToken w of
           None \<Rightarrow> (Some NoToken, 0, p)
         | Some token \<Rightarrow>
             if \<not> kwRequest w uri then (Some BadRequest, 0, p)
             else
               (case kwGet w uri (''Bearer '' @ token) of
                  None \<Rightarrow> (Some NoAnswer, 0, p)
                | Some None \<Rightarrow> (Some NoBody, 0, p)
                | Some (Some data) \<Rightarrow>
                    (case kwUnmarshal w data p of
                       (p', False) \<Rightarrow> (Some BadBody, 0, p')
                     | (p', True) \<Rightarrow> (None, status_cancels p', p')))))"

section \<open>The controller\<close>

datatype pod_action = PodCancel | PodError status_error | PodSleep duration

definition handles_termination :: "environ \<Rightarrow> bool" where
  "handles_termination e =
     (let v = Getenv e ''HANDLE_TERMINATION'' in v = ''1'' \<or> v = ''true'' \<or> v = ''enabled'')"

text \<open>The endless loop, over the surroundings its turns meet.\<close>

fun pod_loop :: "environ \<Rightarrow> kube_world list \<Rightarrow> pod_status \<Rightarrow> pod_action list" where
  "pod_loop e [] p = []"
| "pod_loop e (w # ws) p =
     (case ReadStatus e w p of
        (err, cancels, p') \<Rightarrow>
          replicate cancels PodCancel @
          (case err of None \<Rightarrow> [] | Some x \<Rightarrow> [PodError x]) @
          PodSleep (Second * UpdateStatusPeriod) # pod_loop e ws p')"

definition ReadStatusController :: "environ \<Rightarrow> kube_world list \<Rightarrow> pod_status \<Rightarrow> pod_action list" where
  "ReadStatusController e ws p = (if handles_termination e then pod_loop e ws p else [])"

text \<open>The effect of the actions on the supervisor.\<close>

fun pod_labels_of :: "pod_action list \<Rightarrow> label list" where
  "pod_labels_of [] = []"
| "pod_labels_of (PodCancel # acts) = LPodCompleted # pod_labels_of acts"
| "pod_labels_of (PodError x # acts) = pod_labels_of acts"
| "pod_labels_of (PodSleep d # acts) = pod_labels_of acts"

section \<open>Properties\<close>

definition completed :: "container_statuses \<Rightarrow> bool" where
  "completed c \<longleftrightarrow>
     (\<exists>state. gget (ccState c) ''terminated'' = Some state \<and>
        csReason state = ''Completed'' \<and> csExitCode state \<le> 0)"

lemma status_cancels_count: "status_cancels p = length (filter completed p)"
  by (induction p) (auto simp: completed_def split: option.split)

text \<open>The call reaches the decoder, with this text.\<close>

definition fetched :: "environ \<Rightarrow> kube_world \<Rightarrow> string option" where
  "fetched e w =
     (let uri = PodInfoURI (Getenv e ''POD_NAMESPACE'') (Getenv e ''HOSTNAME'') in
      if Getenv e ''POD_NAMESPACE'' = [] \<or> \<not> kwRequest w uri then None
      else (case kwToken w of
              None \<Rightarrow> None
            | Some token \<Rightarrow>
                (case kwGet w uri (''Bearer '' @ token) of Some (Some data) \<Rightarrow> Some data | _ \<Rightarrow> None)))"

lemma ReadStatus_fetched:
  "(fetched e w = None \<longrightarrow> fst (ReadStatus e w p) \<noteq> None \<and> snd (ReadStatus e w p) = (0, p)) \<and>
   (\<forall>data p' ok. fetched e w = Some data \<longrightarrow> kwUnmarshal w data p = (p', ok) \<longrightarrow>
      ReadStatus e w p = (if ok then (None, length (filter completed p'), p') else (Some BadBody, 0, p')))"
  by (auto simp: ReadStatus_def fetched_def Let_def status_cancels_count
      split: option.splits bool.splits)

text \<open>Reading the pod status. A call that gets no text from the API (no namespace, no token, no
  answer) or a text that does not decode reports an error and cancels nothing; otherwise it reports no
  error and cancels once for every container, of the decoded status, that is terminated with reason
  \<^verbatim>\<open>Completed\<close> and an exit code below 1.\<close>

theorem ReadStatus_cancels:
  "case fetched e w of
     None \<Rightarrow> fst (ReadStatus e w p) \<noteq> None \<and> snd (ReadStatus e w p) = (0, p)
   | Some data \<Rightarrow>
       (case kwUnmarshal w data p of
          (p', ok) \<Rightarrow>
            ReadStatus e w p =
              (if ok then (None, length (filter completed p'), p') else (Some BadBody, 0, p')))"
proof (cases "fetched e w")
  case None
  then show ?thesis using ReadStatus_fetched [of e w p] by simp
next
  case (Some data)
  obtain p' ok where "kwUnmarshal w data p = (p', ok)" by (cases "kwUnmarshal w data p")
  then show ?thesis using ReadStatus_fetched [of e w p] Some by simp
qed

lemma pod_labels_append: "pod_labels_of (xs @ ys) = pod_labels_of xs @ pod_labels_of ys"
  by (induction xs rule: pod_labels_of.induct) auto

lemma pod_labels_cancels: "pod_labels_of (replicate n PodCancel) = replicate n LPodCompleted"
  by (induction n) auto

lemma exec_completed:
  "syExit s = None \<Longrightarrow>
   sys_exec (replicate n LPodCompleted) s = Some (s\<lparr>syCtxDone := (syCtxDone s \<or> 0 < n)\<rparr>)"
  by (induction n arbitrary: s) (simp_all add: sys_step_def)

text \<open>
  Some turn obtains a text that decodes, into a status with a container that is terminated with reason
  \<^verbatim>\<open>Completed\<close> and an exit code of at most 0.
\<close>

fun completion_seen :: "environ \<Rightarrow> kube_world list \<Rightarrow> pod_status \<Rightarrow> bool" where
  "completion_seen e [] p = False"
| "completion_seen e (w # ws) p =
     (case fetched e w of
        None \<Rightarrow> completion_seen e ws p
      | Some data \<Rightarrow>
          (case kwUnmarshal w data p of
             (p', ok) \<Rightarrow> (ok \<and> list_ex completed p') \<or> completion_seen e ws p'))"

lemma ReadStatus_seen:
  assumes "ReadStatus e w p = (err, n, p')"
  shows "completion_seen e (w # ws) p \<longleftrightarrow> 0 < n \<or> completion_seen e ws p'"
proof (cases "fetched e w")
  case None
  then show ?thesis using assms ReadStatus_fetched [of e w p] by auto
next
  case (Some data)
  obtain q ok where u: "kwUnmarshal w data p = (q, ok)" by (cases "kwUnmarshal w data p")
  then have "ReadStatus e w p = (if ok then (None, length (filter completed q), q) else (Some BadBody, 0, q))"
    using Some ReadStatus_fetched [of e w p] by blast
  then show ?thesis
    using assms Some u by (cases ok) (auto simp: list_ex_iff filter_empty_conv)
qed

lemma pod_loop_exec:
  "syExit s = None \<Longrightarrow>
   sys_exec (pod_labels_of (pod_loop e ws p)) s =
     Some (s\<lparr>syCtxDone := (syCtxDone s \<or> completion_seen e ws p)\<rparr>)"
proof (induction ws arbitrary: p s)
  case (Cons w ws)
  obtain err n p' where r: "ReadStatus e w p = (err, n, p')" by (cases "ReadStatus e w p") auto
  have "pod_labels_of (pod_loop e (w # ws) p) =
      replicate n LPodCompleted @ pod_labels_of (pod_loop e ws p')"
    by (simp add: r pod_labels_append pod_labels_cancels split: option.split)
  then show ?case
    using Cons ReadStatus_seen [OF r, of ws]
    by (simp add: sup.exec_append exec_completed del: completion_seen.simps)
qed simp

text \<open>C39: pod completion and the wrapper. The controller's cancel calls, received by the supervisor at any
  time, leave the context of the wrapper cancelled exactly when it was so before, or \<^verbatim>\<open>HANDLE_TERMINATION\<close>
  is on and some turn obtained and decoded a pod status in which a container is terminated with reason
  \<^verbatim>\<open>Completed\<close> and an exit code of at most 0; failed requests, texts that do not decode, running
  containers and failed ones cancel nothing.\<close>

theorem controller_cancels_context:
  assumes "syExit s = None"
  shows "sys_exec (pod_labels_of (ReadStatusController e ws p)) s =
    Some (s\<lparr>syCtxDone := (syCtxDone s \<or> (handles_termination e \<and> completion_seen e ws p))\<rparr>)"
  using assms pod_loop_exec [OF assms] by (simp add: ReadStatusController_def)

definition done_container :: container_statuses where
  "done_container =
     \<lparr>ccName = ''job'',
      ccState = [(''terminated'', \<lparr>csExitCode = 0, csReason = ''Completed'', csStartedAt = 1,
                                   csFinishedAt = 2, csContainerID = ''c''\<rparr>)],
      ccReady = False, ccRestartCount = 0, ccImage = [], ccImageID = [], ccContainerID = [],
      ccStarted = False\<rparr>"

definition failed_container :: container_statuses where
  "failed_container = done_container\<lparr>ccState :=
     [(''terminated'', \<lparr>csExitCode = 1, csReason = ''Error'', csStartedAt = 1, csFinishedAt = 2, csContainerID = ''c''\<rparr>)]\<rparr>"

definition demo_kube :: "pod_status \<Rightarrow> kube_world" where
  "demo_kube status =
     \<lparr>kwToken = Some ''t'', kwRequest = (\<lambda>_. True), kwGet = (\<lambda>_ _. Some (Some ''{}'')),
      kwUnmarshal = (\<lambda>_ _. (status, True))\<rparr>"

theorem controller_cancels_context_witness:
  "map_option syCtxDone (sys_exec (pod_labels_of (ReadStatusController (\<lambda>_. Some ''1'')
     [demo_kube [failed_container], demo_kube [done_container]] [])) (demo_start [])) = Some True \<and>
   map_option syCtxDone (sys_exec (pod_labels_of (ReadStatusController (\<lambda>_. Some ''1'')
     [demo_kube [failed_container]] [])) (demo_start [])) = Some False"
proof -
  have f: "fetched (\<lambda>_. Some ''1'') (demo_kube st) = Some ''{}''" for st
    by (simp add: fetched_def demo_kube_def Let_def Getenv_def)
  have c: "completed done_container" "\<not> completed failed_container"
    by (simp_all add: completed_def done_container_def failed_container_def gget_def)
  have t: "completion_seen (\<lambda>_. Some ''1'') [demo_kube [failed_container], demo_kube [done_container]] []"
    "\<not> completion_seen (\<lambda>_. Some ''1'') [demo_kube [failed_container]] []" "handles_termination (\<lambda>_. Some ''1'')"
    by (simp_all add: f c) (simp_all add: demo_kube_def c handles_termination_def Getenv_def Let_def)
  have s: "syExit (demo_start []) = None" "\<not> syCtxDone (demo_start [])"
    by (simp_all add: demo_start_def start_sys_def init_sys_def)
  show ?thesis
    using controller_cancels_context [OF s(1), of "\<lambda>_. Some ''1''" "[demo_kube [failed_container], demo_kube [done_container]]" "[]"]
      controller_cancels_context [OF s(1), of "\<lambda>_. Some ''1''" "[demo_kube [failed_container]]" "[]"] t s(2)
    by simp
qed

end
