(* ===== verification/MainProg.thy ===== *)
theory MainProg
  imports Config PodStatus LeaseServer
begin

text \<open>
  The program (main.go): flags, modes, the wait mode, the shared-lock server and the start of the
  wrapper, which puts the other components together.
\<close>

section \<open>Flags\<close>

definition ReadinessFilePath :: string where "ReadinessFilePath = ''/tmp/started''"
definition WaitDeadlineSeconds :: int where "WaitDeadlineSeconds = 120"
definition GracefulShutdownSeconds :: int where "GracefulShutdownSeconds = 10"
definition DefaultSharedLockURL :: string where "DefaultSharedLockURL = ''http://localhost:8191''"

record flags =
  configPath :: string
  skipCommands :: string
  readinessFile :: string
  pyroscopeURL :: string
  sharedLockURL :: string
  debug :: bool
  waitMode :: bool
  sharedLock :: bool
  sharedLockEtcdTLS :: bool
  printVersion :: bool
  envoyDrainFlag :: bool
  promMergeEmptyOnFailure :: bool
  promMergeAsync :: bool
  promMergeSort :: bool
  promMergeOmitMeta :: bool
  promMergeSupressErrors :: bool
  waitDeadline :: duration
  gracefulShutdownDeadline :: duration

text \<open>The values the flags have when they are not given.\<close>

definition initFlags :: flags where
  "initFlags =
     \<lparr>configPath = [], skipCommands = [], readinessFile = ReadinessFilePath, pyroscopeURL = [],
      sharedLockURL = DefaultSharedLockURL, debug = False, waitMode = False, sharedLock = False,
      sharedLockEtcdTLS = False, printVersion = False, envoyDrainFlag = False,
      promMergeEmptyOnFailure = False, promMergeAsync = True, promMergeSort = True,
      promMergeOmitMeta = False, promMergeSupressErrors = False,
      waitDeadline = Second * WaitDeadlineSeconds,
      gracefulShutdownDeadline = Second * GracefulShutdownSeconds\<rparr>"

section \<open>The wait mode\<close>

text \<open>
  One element per iteration: whether the timer has fired and whether the file exists. The result is
  \<open>None\<close> while the loop still runs, otherwise whether the file was seen.
\<close>

fun WaitReadiness :: "(bool \<times> bool) list \<Rightarrow> bool option" where
  "WaitReadiness [] = None"
| "WaitReadiness ((fired, exists) # polls) =
     (if fired then Some False else if exists then Some True else WaitReadiness polls)"

section \<open>The shared-lock server\<close>

text \<open>
  What \<^verbatim>\<open>main\<close> meets. \<open>mwDial\<close>, \<open>mwLabelJson\<close> and \<open>mwOpenFile\<close> are the socket of the metrics server, the
  decoder of the extra labels and the labels file; \<open>mwFuel\<close> bounds the loop over that file.
\<close>

record main_world =
  mwEnviron :: environ
  mwOsEnviron :: "string list"
  mwReadFile :: "string \<Rightarrow> string option"
  mwYaml :: decoder
  mwJson :: decoder
  mwPid :: pid
  mwPolls :: "(bool \<times> bool) list"
  mwTls :: "tls_info \<Rightarrow> bool"
  mwConnect :: "etcd_config \<Rightarrow> bool"
  mwListen :: "nat \<Rightarrow> string \<Rightarrow> bool"
  mwFuel :: nat
  mwDial :: "string \<Rightarrow> bool"
  mwLabelJson :: "string \<Rightarrow> labels \<times> bool"
  mwOpenFile :: "string \<Rightarrow> (string \<times> bool) option"
  mwFiles :: "string list"
  mwProbes :: probe_store

text \<open>
  \<^verbatim>\<open>LeaseController\<close> after the registration of its handlers: the exit code of a fatal failure to reach
  etcd, or whether the second call of \<^verbatim>\<open>ListenAndServe\<close> returns without an error (\<open>mwListen n\<close> is the
  result of the \<open>n\<close>-th call; that of the first is dropped).
\<close>

definition LeaseController ::
  "main_world \<Rightarrow> string \<Rightarrow> string \<Rightarrow> string \<Rightarrow> string \<Rightarrow> string \<Rightarrow> bool \<Rightarrow> int + bool" where
  "LeaseController w socket etcdEndpoints etcdCaCert etcdClientCert etcdClientKey tls =
     (let addr = lease_socket socket;
          conf = NewLock etcdEndpoints etcdCaCert etcdClientCert etcdClientKey tls
      in if (case TLS conf of None \<Rightarrow> False | Some t \<Rightarrow> \<not> mwTls w t) then Inl 1
         else if \<not> mwConnect w conf then Inl 1
         else Inr (mwListen w 1 addr))"

definition SharedLockServer :: "flags \<Rightarrow> main_world \<Rightarrow> int + bool" where
  "SharedLockServer f w =
     (let env = Getenv (mwEnviron w) in
      LeaseController w (env ''SHARED_LEASE_SOCKET'') (env ''SHARED_LEASE_ETCD_ENDPOINTS'')
        (env ''SHARED_LEASE_ETCD_CA_CERT'') (env ''SHARED_LEASE_ETCD_CLIENT_CERT'')
        (env ''SHARED_LEASE_ETCD_CLIENT_KEY'') (sharedLockEtcdTLS f))"

section \<open>The wrapper\<close>

datatype goroutine =
    GoReadinessFile | GoHealthEndpoint | GoPreemption | GoNotify | GoPodStatus
  | GoPrometheus | GoPromMerge "prom_target list" | GoSchedule

text \<open>
  A started wrapper: the pid file it tried to write, its goroutines in the order of the \<^verbatim>\<open>go\<close>
  statements, and the system they run in.
\<close>

record wrapper =
  wrPidFile :: "string option"
  wrRoutines :: "goroutine list"
  wrSys :: sys

definition load_config :: "flags \<Rightarrow> main_world \<Rightarrow> int + command list" where
  "load_config f w =
     (if configPath f \<noteq> [] then snd (File_Load (mwOsEnviron w) (mwReadFile w) (mwYaml w) (configPath f))
      else Inr (JSONEnv_Load (mwEnviron w) (mwJson w)))"

definition NewState_routines :: "environ \<Rightarrow> goroutine list" where
  "NewState_routines e =
     [GoReadinessFile, GoHealthEndpoint] @ (if handles_preemption e then [GoPreemption] else [])"

text \<open>
  The metrics server that \<^verbatim>\<open>NewState\<close> asks for, and the labels it loads on the way; \<open>None\<close> while the
  labels file is still being read.
\<close>

definition NewState_metrics :: "flags \<Rightarrow> main_world \<Rightarrow> (server \<times> label_sources) option" where
  "NewState_metrics f w =
     NewMetricsServer (mwFuel w) (mwDial w) (mwLabelJson w) (mwOpenFile w)
       (Getenv (mwEnviron w) ''METRICS_SERVER_ADDRESS'') None
       \<lparr>lsEnviron = mwEnviron w, extraJSONLabels = None, extraFileLabels = None, debugLevel = debug f\<rparr>"

text \<open>
  \<open>None\<close> is a start that has not got past \<^verbatim>\<open>NewState\<close>, \<open>Some (Inl code)\<close> an exit while the configuration is
  loaded.
\<close>

definition StartProcessWrapper :: "flags \<Rightarrow> main_world \<Rightarrow> (int + wrapper) option" where
  "StartProcessWrapper f w =
     (case NewState_metrics f w of
        None \<Rightarrow> None
      | Some (m, ls) \<Rightarrow>
          (case load_config f w of
             Inl code \<Rightarrow> Some (Inl code)
           | Inr commands \<Rightarrow>
               Some (Inr \<lparr>wrPidFile = (if mwPid w \<noteq> 1 then Some (show_int (mwPid w)) else None),
                 wrRoutines =
                   NewState_routines (mwEnviron w) @
                   [GoNotify, GoPodStatus, GoPodStatus, GoPrometheus, GoPromMerge (PromTargets commands),
                    GoSchedule],
                 wrSys = start_sys (readinessFile f) (envoyDrainFlag f) ls m (mwFiles w)
                           (mwProbes w) commands (skip_list (skipCommands f))\<rparr>)))"

section \<open>main\<close>

datatype main_end = MWaiting | MStarting | MExit int | MWrapper wrapper

text \<open>Whether the profiler is started, and how the program goes on.\<close>

definition main_prog :: "flags \<Rightarrow> main_world \<Rightarrow> bool \<times> main_end" where
  "main_prog f w =
     (if waitMode f then
        (False, case WaitReadiness (mwPolls w) of
                  None \<Rightarrow> MWaiting | Some ok \<Rightarrow> if ok then MExit 0 else MExit 1)
      else if printVersion f then (False, MExit 0)
      else
        (pyroscopeURL f \<noteq> [],
         if sharedLock f then
           (case SharedLockServer f w of
              Inl code \<Rightarrow> MExit code | Inr ok \<Rightarrow> if ok then MExit 0 else MExit 1)
         else
           (case StartProcessWrapper f w of
              None \<Rightarrow> MStarting | Some (Inl code) \<Rightarrow> MExit code | Some (Inr wr) \<Rightarrow> MWrapper wr)))"

section \<open>Waiting is bounded\<close>

text \<open>A timer started with \<open>d\<close> has fired once that time has passed, and each iteration sleeps for half a
  second.\<close>

definition timer_law :: "duration \<Rightarrow> (bool \<times> bool) list \<Rightarrow> bool" where
  "timer_law d polls \<longleftrightarrow>
     (\<forall>i < length polls. d \<le> int i * (500 * Millisecond) \<longrightarrow> fst (polls ! i))"

lemma WaitReadiness_decided:
  "i < length polls \<Longrightarrow> fst (polls ! i) \<or> snd (polls ! i) \<Longrightarrow>
   WaitReadiness polls \<noteq> None \<and> WaitReadiness polls = WaitReadiness (take (Suc i) polls)"
proof (induction polls arbitrary: i rule: WaitReadiness.induct)
  case (2 fired exists polls)
  show ?case
  proof (cases i)
    case (Suc j)
    then have p: "j < length polls" "fst (polls ! j) \<or> snd (polls ! j)" using "2.prems" by simp_all
    show ?thesis
    proof (cases "fired \<or> exists")
      case False
      have "WaitReadiness ((fired, exists) # polls) = WaitReadiness polls"
        "WaitReadiness (take (Suc i) ((fired, exists) # polls)) = WaitReadiness (take (Suc j) polls)"
        using False Suc by simp_all
      then show ?thesis using "2.IH" [OF _ _ p] False by metis
    qed auto
  qed (use 2 in auto)
qed simp

lemma WaitReadiness_True_iff:
  "WaitReadiness polls = Some True \<longleftrightarrow>
     (\<exists>i < length polls. snd (polls ! i) \<and> (\<forall>j \<le> i. \<not> fst (polls ! j)))"
proof (induction polls rule: WaitReadiness.induct)
  case (2 fired exists polls)
  have split: "(\<exists>i < Suc n. P i) \<longleftrightarrow> P 0 \<or> (\<exists>i < n. P (Suc i))" for n and P :: "nat \<Rightarrow> bool"
    using less_Suc_eq_0_disj by auto
  have le: "(\<forall>j \<le> Suc i. P j) \<longleftrightarrow> P 0 \<and> (\<forall>j \<le> i. P (Suc j))" for i and P :: "nat \<Rightarrow> bool"
    by (metis Suc_le_mono le0 not0_implies_Suc)
  show ?case using 2 by (auto simp: split le)
qed simp

text \<open>C40: the wait mode ends. It answers success exactly when a poll sees the file before the timer has
  been seen to fire, and it always answers: with a deadline of at most \<open>n\<close> half seconds (240 by
  default) the first \<open>n + 1\<close> polls decide.\<close>

theorem wait_mode_bounded:
  assumes "timer_law d polls" and "d \<le> int n * (500 * Millisecond)" and "n < length polls"
  shows "WaitReadiness polls = WaitReadiness (take (Suc n) polls) \<and>
    WaitReadiness polls =
      Some (\<exists>i \<le> n. snd (polls ! i) \<and> (\<forall>j \<le> i. \<not> fst (polls ! j)))"
proof -
  have fired: "fst (polls ! n)" using assms by (simp add: timer_law_def)
  note d = WaitReadiness_decided [OF assms(3) disjI1 [OF fired]]
  have "WaitReadiness (take (Suc n) polls) = Some True \<longleftrightarrow>
      (\<exists>i \<le> n. snd (polls ! i) \<and> (\<forall>j \<le> i. \<not> fst (polls ! j)))"
    unfolding WaitReadiness_True_iff using assms(3) by (auto simp: less_Suc_eq_le)
  moreover obtain b where "WaitReadiness polls = Some b" using d by blast
  ultimately show ?thesis using d by (cases b) auto
qed

theorem wait_mode_bounded_witness:
  "let polls = [(False, False), (False, False), (False, True), (True, True)]
   in WaitReadiness polls = Some True \<and>
      Some True = Some (\<exists>i \<le> 3. snd (polls ! i) \<and> (\<forall>j \<le> i. \<not> fst (polls ! j)))"
proof -
  let ?p = "[(False, False), (False, False), (False, True), (True, True)]"
  have "timer_law (1200 * Millisecond) ?p"
    unfolding timer_law_def
  proof (intro allI impI)
    fix i assume i: "i < length ?p" "1200 * Millisecond \<le> int i * (500 * Millisecond)"
    then have "i = 3" by (simp add: Millisecond_def)
    then show "fst (?p ! i)" by simp
  qed
  from wait_mode_bounded [OF this, of 3]
  have w: "WaitReadiness ?p = Some (\<exists>i \<le> 3. snd (?p ! i) \<and> (\<forall>j \<le> i. \<not> fst (?p ! j)))"
    by (simp only: Millisecond_def) simp
  moreover have "WaitReadiness ?p = Some True" by simp
  ultimately show ?thesis unfolding Let_def by metis
qed

section \<open>Nothing to run\<close>

definition idle_inv :: "sys \<Rightarrow> bool" where
  "idle_inv s \<longleftrightarrow> syRuns s = [] \<and> syTodo s = [] \<and> syAlive s = {} \<and>
     syWg s = of_bool (syMainAdded s) - of_bool (sySchedDone s) \<and>
     (syExit s = None \<longrightarrow> sySchedDone s \<longrightarrow> syMainAdded s) \<and>
     syExit s \<in> {None, Some ExitOk, Some ExitPanic}"

lemma idle_inv_frame:
  assumes "syRuns t = syRuns s" "syTodo t = syTodo s" "syAlive t \<subseteq> syAlive s" "syWg t = syWg s"
    "syMainAdded t = syMainAdded s" "sySchedDone t = sySchedDone s" "syExit t = syExit s" "idle_inv s"
  shows "idle_inv t"
  using assms by (simp add: idle_inv_def)

lemma idle_inv_step:
  assumes "idle_inv s" "sys_step l s = Some s'"
  shows "idle_inv s'"
proof (cases l)
  case (LSignal sig)
  then have n: "Notify_receive sig s = Some s'" using assms(2) by (simp add: sys_step_def split: if_splits)
  then have "syNotify s = NIdle" by (simp add: Notify_receive_def split: if_splits)
  then show ?thesis
    using n by (intro idle_inv_frame [OF _ _ _ _ _ _ _ assms(1)]; cases sig)
      (auto simp: Notify_receive_def push_termination_def)
next
  case LNotify
  then have n: "Notify_step s = Some s'" using assms(2) by (simp add: sys_step_def split: if_splits)
  show ?thesis
  proof (cases "syNotify s")
    case (NTermSend ps)
    then show ?thesis
      using n by (intro idle_inv_frame [OF _ _ _ _ _ _ _ assms(1)]; cases ps) (auto simp: Notify_step_def)
  qed (use n in \<open>auto simp: Notify_step_def push_termination_def
        intro!: idle_inv_frame [OF _ _ _ _ _ _ _ assms(1)]\<close>)
next
  case LSchedule
  then show ?thesis
    using assms by (cases "syMainAdded s") (auto simp: sys_step_def Schedule_step_def wg_done_def idle_inv_def Let_def split: if_splits)
qed (use assms in \<open>auto simp: sys_step_def Main_add_def Main_wait_def wg_add_def idle_inv_def split: if_splits\<close>)

lemma idle_finishes:
  assumes "idle_inv s" "syExit s = None"
  shows "\<exists>labels s'. set labels \<subseteq> {LMainAdd, LSchedule, LMainWait} \<and> length labels \<le> 3 \<and>
           sys_exec labels s = Some s' \<and> syExit s' = Some ExitOk"
proof -
  note defs = idle_inv_def sys_step_def Schedule_step_def Main_add_def Main_wait_def wg_add_def wg_done_def Let_def
  consider "\<not> syMainAdded s" "\<not> sySchedDone s" | "syMainAdded s" "\<not> sySchedDone s"
    | "syMainAdded s" "sySchedDone s"
    using assms by (auto simp: idle_inv_def)
  then show ?thesis
  proof cases
    case 1
    then show ?thesis
      using assms by (intro exI [of _ "[LMainAdd, LSchedule, LMainWait]"]) (simp add: defs)
  next
    case 2
    then show ?thesis
      using assms by (intro exI [of _ "[LSchedule, LMainWait]"]) (simp add: defs)
  next
    case 3
    then show ?thesis
      using assms by (intro exI [of _ "[LMainWait]"]) (simp add: defs)
  qed
qed

text \<open>The configuration cannot be read: no such file, or no variable.\<close>

definition no_config :: "flags \<Rightarrow> main_world \<Rightarrow> bool" where
  "no_config f w \<longleftrightarrow>
     (if configPath f \<noteq> [] then mwReadFile w (configPath f) = None
      else mwEnviron w ConfigEnv = None)"

text \<open>C20: a missing configuration is not an error. When the configuration file cannot be read, or the
  variable is not set, and the decoders produce no command from the empty text (YAML without, JSON with
  an error), the wrapper starts all the same, with nothing to supervise: no process is ever started,
  and from every state the wrapper has not left, three steps of its own lead to a normal exit. Only a
  labels file that is still being read for the metrics server keeps it from starting.\<close>

theorem missing_config_exits_normally:
  assumes "no_config f w" and "mwYaml w [] = ([], True)" and "mwJson w [] = ([], False)"
  shows "case NewState_metrics f w of
      None \<Rightarrow> StartProcessWrapper f w = None
    | Some _ \<Rightarrow>
        (\<exists>wr. StartProcessWrapper f w = Some (Inr wr) \<and>
          (\<forall>ls s. sys_exec ls (wrSys wr) = Some s \<longrightarrow>
             syRuns s = [] \<and> syAlive s = {} \<and> syExit s \<noteq> Some ExitFatal \<and>
             (syExit s = None \<longrightarrow>
                (\<exists>labels s'. set labels \<subseteq> {LMainAdd, LSchedule, LMainWait} \<and> length labels \<le> 3 \<and>
                   sys_exec labels s = Some s' \<and> syExit s' = Some ExitOk))))"
proof (cases "NewState_metrics f w")
  case None
  then show ?thesis by (simp add: StartProcessWrapper_def)
next
  case (Some ml)
  obtain m lb where ml: "ml = (m, lb)" by (cases ml)
  have "load_config f w = Inr []"
    using assms by (auto simp: load_config_def File_Load_def JSONEnv_Load_def no_config_def Let_def split: if_splits)
  then obtain wr where wr: "StartProcessWrapper f w = Some (Inr wr)"
    and sys: "wrSys wr = start_sys (readinessFile f) (envoyDrainFlag f) lb m (mwFiles w)
                 (mwProbes w) [] (skip_list (skipCommands f))"
    using Some ml by (simp add: StartProcessWrapper_def)
  have init: "idle_inv (wrSys wr)"
    by (simp add: sys idle_inv_def start_sys_def init_sys_def launched_NewSchedule selected_def)
  have inv: "idle_inv s" if "sys_exec ls (wrSys wr) = Some s" for ls s
    using that init by (rule sup.exec_invariant) (rule idle_inv_step)
  then show ?thesis
    using wr idle_finishes Some by (fastforce simp: idle_inv_def)
qed

definition demo_world :: main_world where
  "demo_world =
     \<lparr>mwEnviron = (\<lambda>_. None), mwOsEnviron = [], mwReadFile = (\<lambda>_. None), mwYaml = (\<lambda>_. ([], True)),
      mwJson = (\<lambda>_. ([], False)), mwPid = 1, mwPolls = [], mwTls = (\<lambda>_. True), mwConnect = (\<lambda>_. True),
      mwListen = (\<lambda>_ _. False), mwFuel = 0, mwDial = (\<lambda>_. False), mwLabelJson = (\<lambda>_. ([], False)),
      mwOpenFile = (\<lambda>_. None), mwFiles = [],
      mwProbes = (\<lambda>_. empty_probe)\<rparr>"

theorem missing_config_exits_normally_witness:
  "\<exists>wr s. StartProcessWrapper (initFlags\<lparr>configPath := ''/etc/missing''\<rparr>) demo_world = Some (Inr wr) \<and>
     sys_exec [LMainAdd, LSchedule, LMainWait] (wrSys wr) = Some s \<and> syRuns s = [] \<and> syExit s = Some ExitOk"
proof -
  have "no_config (initFlags\<lparr>configPath := ''/etc/missing''\<rparr>) demo_world"
    by (simp add: no_config_def demo_world_def)
  moreover have "mwYaml demo_world [] = ([], True)" "mwJson demo_world [] = ([], False)"
    by (simp_all add: demo_world_def)
  moreover obtain ml where ml: "NewState_metrics (initFlags\<lparr>configPath := ''/etc/missing''\<rparr>) demo_world = Some ml"
    by (simp add: NewState_metrics_def NewMetricsServer_def demo_world_def Getenv_def)
  ultimately obtain wr where wr: "StartProcessWrapper (initFlags\<lparr>configPath := ''/etc/missing''\<rparr>) demo_world = Some (Inr wr)"
    and no_runs: "\<forall>ls s. sys_exec ls (wrSys wr) = Some s \<longrightarrow> syRuns s = []"
    using missing_config_exits_normally [of "initFlags\<lparr>configPath := ''/etc/missing''\<rparr>" demo_world]
    by (auto simp: ml)
  have "case sys_exec [LMainAdd, LSchedule, LMainWait] (wrSys wr) of None \<Rightarrow> False
        | Some s \<Rightarrow> syExit s = Some ExitOk"
    using wr ml
    by (cases ml) (auto simp: StartProcessWrapper_def load_config_def File_Load_def demo_world_def exec_defs)
  then obtain s where s: "sys_exec [LMainAdd, LSchedule, LMainWait] (wrSys wr) = Some s" "syExit s = Some ExitOk"
    by (cases "sys_exec [LMainAdd, LSchedule, LMainWait] (wrSys wr)") simp_all
  with no_runs have "syRuns s = []" by blast
  with wr s show ?thesis by blast
qed

section \<open>A start that hangs\<close>

text \<open>C18: An unreadable labels file. With a metrics server that can be dialled and a labels file that cannot be
  opened, or whose reading does not end with the end of the file, the wrapper never gets past
  \<^verbatim>\<open>NewState\<close>, however long it runs: no configuration is loaded and no signal is handled.\<close>

theorem unreadable_labels_file_hangs:
  assumes "Getenv (mwEnviron w) ''METRICS_SERVER_ADDRESS'' = address" and "address \<noteq> []" and "mwDial w address"
    and "mwEnviron w ''METRICS_EXTRA_LABELS_FILE_PATH'' = Some path"
    and "case mwOpenFile w path of None \<Rightarrow> True | Some (content, eof) \<Rightarrow> \<not> eof"
  shows "StartProcessWrapper f (w\<lparr>mwFuel := n\<rparr>) = None"
  using assms file_labels_loop_no_eof
  by (cases "mwOpenFile w path")
    (auto simp: StartProcessWrapper_def NewState_metrics_def NewMetricsServer_def GetExtraFileLabels_def
      Let_def split: option.splits)

theorem unreadable_labels_file_hangs_witness:
  "StartProcessWrapper initFlags (demo_world\<lparr>mwEnviron := [''METRICS_SERVER_ADDRESS'' \<mapsto> ''/run/m'',
      ''METRICS_EXTRA_LABELS_FILE_PATH'' \<mapsto> ''/labels''], mwDial := \<lambda>_. True, mwFuel := 1000\<rparr>) = None"
  using unreadable_labels_file_hangs [of "demo_world\<lparr>mwEnviron := [''METRICS_SERVER_ADDRESS'' \<mapsto> ''/run/m'',
      ''METRICS_EXTRA_LABELS_FILE_PATH'' \<mapsto> ''/labels''], mwDial := \<lambda>_. True\<rparr>" "''/run/m''" "''/labels''" initFlags 1000]
  by (simp add: demo_world_def Getenv_def)

end
