(* ===== verification/Spec2Isabelle.thy ===== *)
theory Spec2Isabelle
  imports DurationCodec Watched LockClient ProcStat Output MainProg
begin

text \<open>
  process-wrapper, a supervisor for the processes of a container: a model of its Go sources, and the
  theorems that say what it does.

  \<^bold>\<open>The program.\<close> \<^verbatim>\<open>main.go\<close> reads flags and a configuration (\<^verbatim>\<open>pkg/config\<close>), starts the health server
  and the signal notifier, and schedules the configured commands. Each command is run by a goroutine of
  its own (\<^verbatim>\<open>Command.Run\<close>), which may first acquire a shared lock, starts the child, a health checker, a
  usage collector and two output readers, waits for the child, and starts it again unless a shutdown
  has begun. All goroutines share one \<^verbatim>\<open>State\<close> (\<^verbatim>\<open>pkg/process/health.go\<close>): statuses, pids, kill flags,
  start times, heart beats and cancel functions by process name, and the flags for shutdown and
  preemption. The same binary is the shared-lock server, a small HTTP front of etcd (\<^verbatim>\<open>pkg/lease\<close>), and
  with \<^verbatim>\<open>-wait\<close> a client that waits for the readiness file.

  \<^bold>\<open>The model.\<close> Sequential code is a function over the explicit state, with the answers of the
  surroundings (files, network, child processes, clock, libraries) as arguments. Code that runs for ever
  is a function over the list of what its iterations meet. The health checker and the usage collector
  also return what they do, in the order of the program and with their writes to the shared state among
  it (\<open>AWrite\<close>, \<open>SWrite\<close>), so that the order of a write, a cancellation and a kill is part of the model, and
  \<open>Watched\<close> can carry it out between the steps of others. Concurrent code is a step function
  over a system state: one step for each access to shared data, so that the executions (lists of
  labels) are the interleavings of the goroutines. Panics, fatal log entries and exits are values.

  \<^item> \<open>Prelude\<close>: Go maps as association lists with unique keys, through the locales \<open>go_map\<close> and
    \<open>go_map_range\<close> (interpreted as \<open>gm\<close>); the response writer of net/http; the locale \<open>execution\<close>, the
    induction principles for step functions, interpreted on the supervisor (\<open>sup\<close>) and on the lock
    server (\<open>lk\<close>).
  \<^item> \<open>GoTime\<close>, \<open>GoText\<close>, \<open>GoFloat\<close>, \<open>GoDuration\<close>: what the wrapper uses of Go's packages time, strings,
    strconv and fmt. Durations are 64-bit and saturate or wrap where Go does; a float64 is the rational
    it denotes, each operation rounded to 53 bits.
  \<^item> \<open>StateStore\<close> (health.go, \<^verbatim>\<open>State\<close>): one definition per method; the state refines a plain table.
  \<^item> \<open>HealthHttp\<close> (health.go): the HTTP handlers, the readiness file, the preemption watcher.
  \<^item> \<open>Metrics\<close> (pkg/metrics): labels and events. \<open>DurationCodec\<close> (duration.go): JSON and YAML durations.
  \<^item> \<open>EnvMerge\<close>, \<open>Command\<close>, \<open>ProcessConfig\<close> (process.go): the environment of a process, the configured
    command and its probe. Replicas share their probe, so a command refers to it by a number.
  \<^item> \<open>Probes\<close> (probe_*.go), \<open>Hook\<close> (hook.go), \<open>ProbeRunner\<close> (process.go, \<^verbatim>\<open>HealthChecker\<close> and
    \<^verbatim>\<open>ProbeRunner\<close>), \<open>ProbeProps\<close>: all probes, the rounds of the checker, and their theorems. The locale
    \<open>health_probe\<close> (a run does not change what is checked) has the SQL and the AMQP probe as instances.
    \<open>Watched\<close> runs the checker inside the supervisor.
  \<^item> \<open>Schedule\<close> (process.go, \<^verbatim>\<open>NewSchedule\<close>; config.go): what is started, and under which names.
  \<^item> \<open>Supervisor\<close>, \<open>SupervisorProps\<close>, \<open>SupervisorTypes\<close> (process.go, \<^verbatim>\<open>Run\<close>; signals.go; main.go): the
    goroutines running \<^verbatim>\<open>Run\<close>, the scheduler, the notifier and the wait group of main, interleaved.
  \<^item> \<open>LeaseServer\<close>, \<open>LeaseServerProps\<close> (lock.go, lease.go) and \<open>LockClient\<close> (process.go, \<^verbatim>\<open>CreateLease\<close> and
    \<^verbatim>\<open>AcquireSharedLock\<close>): the shared lock from end to end.
  \<^item> \<open>ProcStat\<close> (stat.go, process_stats.go): reading /proc and the memory limit.
  \<^item> \<open>Output\<close> (process.go, \<^verbatim>\<open>ProcessOutput\<close>), \<open>PodStatus\<close> (container_state.go), \<open>Config\<close> (file.go,
    json_env.go, string.go, config.go), \<open>MainProg\<close> (main.go): the output of the children, the pod, the
    configuration, and the program.

  \<^bold>\<open>The theorems.\<close> Supervision: a normal exit leaves nothing running (C1); after the shutdown began a
  goroutine makes a bounded number of steps, not counting refused lock requests (C2), and a normal exit can
  be reached exactly if no start is left under a cancelled context (C3); what follows the end of a child
  (C9), late starts (C13), and the signal to every waiting child, when the names are distinct (C11); the
  reachable states are well formed (C8); and how the wrapper ends otherwise (C19, C20, C24), or does not
  get to start (C18, C32). Health checking: a round implements an abstract specification (C6), a dead
  process is restarted in time (C10), from the failing probe to the next child (C4), kills come after the
  marks and the cancelling (C15), every probe runs (C37), the configuration is kept (C36), and what a hook
  does to the readiness (C25). Shared lock: two requests have a lock only if a lease expired, over all
  interleavings (C5), a held lock excludes others (C12), and client, server and probe fit (C14, C16, C17,
  C35). Shared state: refinement of a table (C7). The other properties are about single components:
  environments (C21, C22), names (C23), the memory limit and the stat file (C26 to C28), the output (C29,
  C30), durations (C31), labels (C32), the readiness endpoint and file (C33, C34), the floating-pid probe
  (C38), the pod status (C39) and the wait mode (C40). Further theorems, without a number, state what
  the remaining operations do, among them the deviations from what the code means to do: the
  heart-beat list that is unreachable, default leases of no duration, defaults of certificates that test
  the wrong variable, replicas that lose fields, messages that are lost, processes of one name of which one
  misses its signal, locks taken for requests that are answered with an error, stat fields read one place
  too early, and the readiness file that does not wait for processes without a state.

  \<^bold>\<open>Hypotheses.\<close> \<open>etcd_laws\<close> states what etcd documents: linearisable reads, lease ids that are not used
  again, atomic transactions that may have been applied when they report an error, expiry that removes
  the keys of the lease. Decoders (JSON, YAML, logfmt) are arguments; a theorem that needs one to
  read back what it wrote says so. \<open>timer_law\<close> is the behaviour of a timer and of sleeping.

  \<^bold>\<open>Bounds and fuel.\<close> Only the labels file loader, and the start of the wrapper that calls it, have fuel,
  because it may not end: the theorems say exactly when enough fuel gives a result (C32), and that
  otherwise no amount of it does (C18). All other loops are structural, have a termination proof, or are
  functions of the list of their iterations. The bound of sixteen steps in C2 counts the program points of
  \<^verbatim>\<open>Run\<close> from the last test of the shutdown flag to the end. The start history of a process has ten entries,
  as in the code.

  \<^bold>\<open>Not modelled.\<close> The registration of Prometheus metrics and the counters (they are only written), the
  profiler, the usage text and the parsing of the command line, the HTTP servers and clients
  themselves, the log entries (other than the output of the children), and the contents of
  \<^verbatim>\<open>SysProcAttr\<close>. A data race inside one method is not modelled: the methods of \<^verbatim>\<open>State\<close> hold its lock and
  are single steps. In a round of the health checker the two probes that look at the shared state see it as
  it was when the round began; the writes of the round can be interleaved with those of others, because what
  a round decides after its probes does not depend on the state. A lease that a replica writes to the
  shared probe arrives between two rounds.
\<close>

end
